theory Spec2Isabelle
  imports Complex_Main
begin

section \<open>Text primitives\<close>

text \<open>
  Python strings are modelled as \<open>string\<close>, for ASCII text: a character of the model is a
  code point from 0x00 to 0x7F. The helpers below are the behaviour on such text of
  \<^verbatim>\<open>str.upper\<close>, \<^verbatim>\<open>str.startswith\<close>, the \<^verbatim>\<open>in\<close> operator on strings,
  \<^verbatim>\<open>str.isspace\<close>, \<^verbatim>\<open>str.strip\<close>, \<^verbatim>\<open>str.split\<close>, \<^verbatim>\<open>str.join\<close> and of the
  regular-expression classes \<^verbatim>\<open>\s\<close> and \<^verbatim>\<open>\w\<close>. Beyond ASCII Python does more, which
  the model does not follow: \<^verbatim>\<open>str.upper\<close> also folds other letters (U+00DF becomes
  \<open>SS\<close>, U+0131 becomes \<open>I\<close>), \<^verbatim>\<open>str.strip\<close> and \<^verbatim>\<open>\s\<close> also take U+0085, U+00A0 and
  the other Unicode spaces as white space, and \<^verbatim>\<open>\w\<close> also matches the other Unicode
  letters and digits.
\<close>

text \<open>\<^verbatim>\<open>str.upper\<close> on ASCII: the twenty-six lower-case letters change, nothing else.\<close>

definition upper_char :: "char \<Rightarrow> char" where
  "upper_char c =
     (case map_of (zip ''abcdefghijklmnopqrstuvwxyz'' ''ABCDEFGHIJKLMNOPQRSTUVWXYZ'') c of
        Some u \<Rightarrow> u
      | None \<Rightarrow> c)"

definition upper :: "string \<Rightarrow> string" where
  "upper s = map upper_char s"

fun startswith :: "string \<Rightarrow> string \<Rightarrow> bool" where
  "startswith s [] = True"
| "startswith [] (p # ps) = False"
| "startswith (c # cs) (p # ps) = (c = p \<and> startswith cs ps)"

text \<open>\<^verbatim>\<open>s.startswith((p1, p2, ...))\<close>: some prefix of the tuple matches.\<close>

fun startswith_any :: "string \<Rightarrow> string list \<Rightarrow> bool" where
  "startswith_any s [] = False"
| "startswith_any s (p # ps) = (startswith s p \<or> startswith_any s ps)"

text \<open>\<^verbatim>\<open>sub in s\<close>: \<open>sub\<close> occurs in \<open>s\<close> as a contiguous substring.\<close>

fun contains :: "string \<Rightarrow> string \<Rightarrow> bool" where
  "contains sub [] = (sub = [])"
| "contains sub (c # cs) = (startswith (c # cs) sub \<or> contains sub cs)"

text \<open>The ASCII characters for which \<^verbatim>\<open>str.isspace\<close> holds: these are what
  \<^verbatim>\<open>str.strip()\<close> removes and what \<^verbatim>\<open>\s\<close> matches in a \<^verbatim>\<open>str\<close> pattern.\<close>

definition isspace :: "char \<Rightarrow> bool" where
  "isspace c = (c \<in> set
     [CHR 0x09, CHR 0x0A, CHR 0x0B, CHR 0x0C, CHR 0x0D,
      CHR 0x1C, CHR 0x1D, CHR 0x1E, CHR 0x1F, CHR '' ''])"

text \<open>The ASCII characters that \<^verbatim>\<open>\w\<close> matches.\<close>

definition isword :: "char \<Rightarrow> bool" where
  "isword c = (c \<in> set
     (''abcdefghijklmnopqrstuvwxyz'' @ ''ABCDEFGHIJKLMNOPQRSTUVWXYZ'' @ ''0123456789_''))"

text \<open>\<^verbatim>\<open>s.strip(chars)\<close> with the set of characters given as a predicate.\<close>

definition strip_where :: "(char \<Rightarrow> bool) \<Rightarrow> string \<Rightarrow> string" where
  "strip_where p s = rev (dropWhile p (rev (dropWhile p s)))"

definition strip :: "string \<Rightarrow> string" where
  "strip s = strip_where isspace s"

definition strip_chars :: "string \<Rightarrow> string \<Rightarrow> string" where
  "strip_chars chars s = strip_where (\<lambda>c. c \<in> set chars) s"

text \<open>\<^verbatim>\<open>s.split(sep)\<close> for a one-character separator: always at least one piece.\<close>

fun split_on :: "char \<Rightarrow> string \<Rightarrow> string list" where
  "split_on sep [] = [ [] ]"
| "split_on sep (c # cs) =
     (if c = sep then [] # split_on sep cs
      else (case split_on sep cs of
              p # ps \<Rightarrow> (c # p) # ps
            | [] \<Rightarrow> [ [c] ]))"

fun join :: "string \<Rightarrow> string list \<Rightarrow> string" where
  "join sep [] = []"
| "join sep [x] = x"
| "join sep (x # y # ys) = x @ sep @ join sep (y # ys)"

section \<open>Type mapper\<close>

text \<open>\<^verbatim>\<open>sqlite_type_to_mysql\<close>, lines 6 to 19: the \<^verbatim>\<open>if\<close>/\<^verbatim>\<open>elif\<close> chain on the
  upper-cased type.\<close>

definition sqlite_type_to_mysql :: "string \<Rightarrow> string" where
  "sqlite_type_to_mysql sqlite_type =
     (let t = upper sqlite_type in
      if contains ''INT'' t then ''INT''
      else if contains ''CHAR'' t \<or> contains ''CLOB'' t \<or> contains ''TEXT'' t then ''TEXT''
      else if contains ''BLOB'' t then ''BLOB''
      else if contains ''REAL'' t \<or> contains ''FLOA'' t \<or> contains ''DOUB'' t then ''DOUBLE''
      else if contains ''DATE'' t \<or> contains ''TIME'' t then ''DATETIME''
      else ''TEXT'')"

subsection \<open>The rule list of the specification\<close>

text \<open>
  The specification describes the mapper as an ordered list of rules, each a set of
  keywords and a target type; the first rule with a keyword occurring in the token,
  compared without regard to letter case, decides, and \<open>TEXT\<close> is the fallback. The
  definitions below follow these words and do not use \<open>upper\<close>: two characters are the same
  letter when they are equal or are the lower-case and the upper-case form of one of the
  twenty-six letters.
\<close>

definition spec_rules :: "(string list \<times> string) list" where
  "spec_rules =
     [([''INT''], ''INT''),
      ([''CHAR'', ''CLOB'', ''TEXT''], ''TEXT''),
      ([''BLOB''], ''BLOB''),
      ([''REAL'', ''FLOA'', ''DOUB''], ''DOUBLE''),
      ([''DATE'', ''TIME''], ''DATETIME'')]"

definition spec_same_letter :: "char \<Rightarrow> char \<Rightarrow> bool" where
  "spec_same_letter a b =
     (a = b
      \<or> (a, b) \<in> set (zip ''abcdefghijklmnopqrstuvwxyz'' ''ABCDEFGHIJKLMNOPQRSTUVWXYZ'')
      \<or> (b, a) \<in> set (zip ''abcdefghijklmnopqrstuvwxyz'' ''ABCDEFGHIJKLMNOPQRSTUVWXYZ''))"

text \<open>The keyword stands at the start of the text.\<close>

fun spec_prefix :: "string \<Rightarrow> string \<Rightarrow> bool" where
  "spec_prefix [] t = True"
| "spec_prefix (k # ks) [] = False"
| "spec_prefix (k # ks) (c # cs) = (spec_same_letter k c \<and> spec_prefix ks cs)"

text \<open>The keyword stands somewhere in the text.\<close>

fun spec_occurs :: "string \<Rightarrow> string \<Rightarrow> bool" where
  "spec_occurs kw [] = (kw = [])"
| "spec_occurs kw (c # cs) = (spec_prefix kw (c # cs) \<or> spec_occurs kw cs)"

fun spec_occurs_any :: "string list \<Rightarrow> string \<Rightarrow> bool" where
  "spec_occurs_any [] t = False"
| "spec_occurs_any (k # ks) t = (spec_occurs k t \<or> spec_occurs_any ks t)"

fun spec_first_rule :: "(string list \<times> string) list \<Rightarrow> string \<Rightarrow> string" where
  "spec_first_rule [] t = ''TEXT''"
| "spec_first_rule ((ks, ty) # rs) t =
     (if spec_occurs_any ks t then ty else spec_first_rule rs t)"

definition spec_mapType :: "string \<Rightarrow> string" where
  "spec_mapType tok = spec_first_rule spec_rules tok"

subsection \<open>Keywords as the specification means them\<close>

text \<open>
  A keyword of the statement language is a word of its own: its letters in any case, and no
  word character directly before or after it. A keyword of several words, such as
  \<open>PRIMARY KEY\<close>, has white space of any length between its words. \<open>spec_leading_keyword\<close>
  says that a clause, after its leading white space, begins with the given words;
  \<open>spec_has_word\<close> says that the word stands somewhere in the text.
\<close>

definition spec_word_end :: "string \<Rightarrow> bool" where
  "spec_word_end s = (case s of [] \<Rightarrow> True | c # _ \<Rightarrow> \<not> isword c)"

fun spec_leading_words :: "string list \<Rightarrow> string \<Rightarrow> bool" where
  "spec_leading_words [] s = False"
| "spec_leading_words [w] s = (spec_prefix w s \<and> spec_word_end (drop (length w) s))"
| "spec_leading_words (w # v # ws) s =
     (spec_prefix w s \<and>
      (case drop (length w) s of
         [] \<Rightarrow> False
       | c # r \<Rightarrow> isspace c \<and> spec_leading_words (v # ws) (dropWhile isspace r)))"

definition spec_leading_keyword :: "string list \<Rightarrow> string \<Rightarrow> bool" where
  "spec_leading_keyword ws clause = spec_leading_words ws (dropWhile isspace clause)"

fun spec_word_from :: "string \<Rightarrow> bool \<Rightarrow> string \<Rightarrow> bool" where
  "spec_word_from w free [] = False"
| "spec_word_from w free (c # cs) =
     ((free \<and> spec_prefix w (c # cs) \<and> spec_word_end (drop (length w) (c # cs)))
      \<or> spec_word_from w (\<not> isword c) cs)"

definition spec_has_word :: "string \<Rightarrow> string \<Rightarrow> bool" where
  "spec_has_word w s = spec_word_from w True s"

section \<open>DDL column parser\<close>

text \<open>
  \<^verbatim>\<open>re.search(r'\((.*)\)', schema, re.S)\<close>, group 1. The search starts at the leftmost
  \<open>(\<close>; the greedy \<^verbatim>\<open>.*\<close> (with \<^verbatim>\<open>re.S\<close> it also crosses newlines) then runs to the
  last \<open>)\<close> of the text. If the first \<open>(\<close> has no \<open>)\<close> after it, no later one has, and
  there is no match.
\<close>

definition upto_last :: "char \<Rightarrow> string \<Rightarrow> string" where
  "upto_last c s = rev (tl (dropWhile (\<lambda>x. x \<noteq> c) (rev s)))"

definition search_parens :: "string \<Rightarrow> string option" where
  "search_parens schema =
     (case dropWhile (\<lambda>x. x \<noteq> CHR ''('') schema of
        [] \<Rightarrow> None
      | _ # rest \<Rightarrow>
          if CHR '')'' \<in> set rest then Some (upto_last (CHR '')'') rest) else None)"

text \<open>
  The lookahead \<^verbatim>\<open>(?![^()]*\))\<close> of the split pattern fails exactly when the next
  parenthesis character of the remaining text is a closing one.
\<close>

definition closes_next :: "string \<Rightarrow> bool" where
  "closes_next s =
     (case dropWhile (\<lambda>x. x \<noteq> CHR ''('' \<and> x \<noteq> CHR '')'') s of
        [] \<Rightarrow> False
      | c # _ \<Rightarrow> c = CHR '')'')"

text \<open>
  \<^verbatim>\<open>re.split(r',\s*(?![^()]*\))', text)\<close>. A separator is a comma together with all
  the white space after it, provided the lookahead holds behind that white space; giving
  back white space cannot help the lookahead, since white space is not a parenthesis. Every
  other character, and a comma that is no separator, stays in the current piece.
\<close>

function split_columns :: "string \<Rightarrow> string list" where
  "split_columns [] = [ [] ]"
| "split_columns (c # cs) =
     (if c = CHR '','' \<and> \<not> closes_next (dropWhile isspace cs)
      then [] # split_columns (dropWhile isspace cs)
      else (case split_columns cs of
              p # ps \<Rightarrow> (c # p) # ps
            | [] \<Rightarrow> [ [c] ]))"
  by pat_completeness auto
termination
  by (relation "measure length") (auto simp: le_imp_less_Suc length_dropWhile_le)

text \<open>
  \<^verbatim>\<open>re.match(r'[`"\[]?(\w+)[`"\] ]?\s+([^\s,]+)', line)\<close>, groups 1 and 2. The pattern
  is anchored at the start of the line; each of its parts is followed by a part that cannot
  start with a character the part itself accepts, so the greedy choice is the only one:
  an optional opening quote, the longest run of word characters (at least one), an optional
  closing quote, the longest run of white space (at least one), and the longest run of
  characters that are neither white space nor a comma (at least one).
\<close>

definition opt_char :: "string \<Rightarrow> string \<Rightarrow> string" where
  "opt_char chars s =
     (case s of
        [] \<Rightarrow> []
      | c # r \<Rightarrow> if c \<in> set chars then r else s)"

definition col_match :: "string \<Rightarrow> (string \<times> string) option" where
  "col_match line =
     (let s1 = opt_char [CHR 0x60, CHR 0x22, CHR ''[''] line;
          col_name = takeWhile isword s1;
          s2 = opt_char [CHR 0x60, CHR 0x22, CHR '']''] (dropWhile isword s1);
          s3 = dropWhile isspace s2;
          col_type = takeWhile (\<lambda>x. \<not> isspace x \<and> x \<noteq> CHR '','') s3
      in if col_name = [] \<or> takeWhile isspace s2 = [] \<or> col_type = [] then None
         else Some (col_name, col_type))"

definition constraint_keywords :: "string list" where
  "constraint_keywords = [''CONSTRAINT'', ''PRIMARY KEY'', ''UNIQUE'', ''FOREIGN KEY'']"

text \<open>The loop of \<^verbatim>\<open>parse_columns\<close>, lines 28 to 37, with \<^verbatim>\<open>col_defs\<close> as the
  accumulator that \<^verbatim>\<open>append\<close> extends.\<close>

fun parse_parts :: "string list \<Rightarrow> (string \<times> string) list \<Rightarrow> (string \<times> string) list" where
  "parse_parts [] col_defs = col_defs"
| "parse_parts (part # parts) col_defs =
     (let line = strip part in
      if line = [] \<or> startswith_any (upper line) constraint_keywords
      then parse_parts parts col_defs
      else (case col_match line of
              Some (col_name, col_type) \<Rightarrow>
                parse_parts parts (col_defs @ [(col_name, sqlite_type_to_mysql col_type)])
            | None \<Rightarrow> parse_parts parts col_defs))"

definition parse_columns :: "string \<Rightarrow> (string \<times> string) list" where
  "parse_columns schema =
     (case search_parens schema of
        None \<Rightarrow> []
      | Some cols \<Rightarrow> parse_parts (split_columns cols) [])"

section \<open>The source catalog\<close>

text \<open>A row of \<^verbatim>\<open>sqlite_master\<close>, with the columns the queries of the program read. The
  creation text \<^verbatim>\<open>sql\<close> can be \<^verbatim>\<open>NULL\<close>.\<close>

record master_row =
  m_type :: string
  m_name :: string
  m_tbl_name :: string
  m_sql :: "string option"

text \<open>\<^verbatim>\<open>get_tables\<close>, lines 40 to 42: the names of the rows of type \<^verbatim>\<open>table\<close>, in catalog
  order, without those that start with \<^verbatim>\<open>sqlite_\<close>.\<close>

definition get_tables :: "master_row list \<Rightarrow> string list" where
  "get_tables master =
     filter (\<lambda>name. \<not> startswith name ''sqlite_'')
       (map m_name (filter (\<lambda>r. m_type r = ''table'') master))"

section \<open>Index descriptor parser\<close>

record index_desc =
  idx_name :: string
  idx_unique :: bool
  idx_columns :: "string list"

text \<open>
  \<^verbatim>\<open>re.search(r'\(([^)]+)\)', sql)\<close>, group 1. At an opening parenthesis the greedy class
  takes every character up to the next \<open>)\<close>; the match needs at least one such character
  and the \<open>)\<close> itself. Where that fails, the search moves on to the next position.
\<close>

fun first_group :: "string \<Rightarrow> string option" where
  "first_group [] = None"
| "first_group (c # cs) =
     (if c = CHR ''('' \<and> takeWhile (\<lambda>x. x \<noteq> CHR '')'') cs \<noteq> []
           \<and> dropWhile (\<lambda>x. x \<noteq> CHR '')'') cs \<noteq> []
      then Some (takeWhile (\<lambda>x. x \<noteq> CHR '')'') cs)
      else first_group cs)"

text \<open>The query of \<^verbatim>\<open>get_indexes\<close>: name and text of the index rows of the table whose
  text is not \<^verbatim>\<open>NULL\<close>.\<close>

definition select_indexes :: "master_row list \<Rightarrow> string \<Rightarrow> (string \<times> string) list" where
  "select_indexes master table =
     List.map_filter
       (\<lambda>r. if m_type r = ''index'' \<and> m_tbl_name r = table
            then (case m_sql r of Some sql \<Rightarrow> Some (m_name r, sql) | None \<Rightarrow> None)
            else None)
       master"

definition index_columns :: "string \<Rightarrow> string list" where
  "index_columns grp =
     map (\<lambda>col. strip_chars [CHR 0x60, CHR 0x22, CHR ''['', CHR '']''] (strip col))
       (split_on (CHR '','') grp)"

text \<open>The loop of \<^verbatim>\<open>get_indexes\<close>, lines 48 to 54, with \<^verbatim>\<open>index_list\<close> as accumulator.\<close>

fun index_loop :: "(string \<times> string) list \<Rightarrow> index_desc list \<Rightarrow> index_desc list" where
  "index_loop [] index_list = index_list"
| "index_loop ((name, sql) # rows) index_list =
     (let unique = contains ''UNIQUE'' (upper sql) in
      case first_group sql of
        Some grp \<Rightarrow>
          index_loop rows
            (index_list @
              [\<lparr>idx_name = name, idx_unique = unique, idx_columns = index_columns grp\<rparr>])
      | None \<Rightarrow> index_loop rows index_list)"

definition get_indexes :: "master_row list \<Rightarrow> string \<Rightarrow> index_desc list" where
  "get_indexes master table = index_loop (select_indexes master table) []"

section \<open>The migration run\<close>

subsection \<open>Statements, events and the two databases\<close>

text \<open>
  The statements the program sends to the target. \<open>sql_text\<close> is the text the program
  builds for each and \<open>sql_params\<close> the parameter list it passes along; an insert carries
  its batch of rows, each row a list of values of an arbitrary type \<open>'v\<close>.
\<close>

datatype 'v stmt =
    DropTable string
  | CreateTable string "(string \<times> string) list"
  | CreateIndex bool string string "string list"
  | Insert string "string list" "'v list list"

definition quoted :: "string \<Rightarrow> string" where
  "quoted name = [CHR 0x60] @ name @ [CHR 0x60]"

fun sql_text :: "'v stmt \<Rightarrow> string" where
  "sql_text (DropTable table) = ''DROP TABLE IF EXISTS '' @ quoted table @ '';''"
| "sql_text (CreateTable table columns) =
     ''CREATE TABLE IF NOT EXISTS '' @ quoted table @ '' ('' @
       join '', '' (map (\<lambda>(col, typ). quoted col @ '' '' @ typ) columns) @ '');''"
| "sql_text (CreateIndex unique name table columns) =
     (if unique then ''CREATE UNIQUE INDEX '' else ''CREATE INDEX '') @ quoted name @
       '' ON '' @ quoted table @ '' ('' @ join '', '' (map quoted columns) @ '');''"
| "sql_text (Insert table cols batch) =
     ''INSERT INTO '' @ quoted table @ '' ('' @ join '', '' (map quoted cols) @ '') VALUES '' @
       join '', ''
         (map (\<lambda>_. ''('' @ join '', '' (replicate (length cols) ''%s'') @ '')'') batch)"

fun sql_params :: "'v stmt \<Rightarrow> 'v list" where
  "sql_params (Insert table cols batch) = concat batch"
| "sql_params _ = []"

fun stmt_table :: "'v stmt \<Rightarrow> string" where
  "stmt_table (DropTable table) = table"
| "stmt_table (CreateTable table columns) = table"
| "stmt_table (CreateIndex unique name table columns) = table"
| "stmt_table (Insert table cols batch) = table"

text \<open>What the program asks of the target connection, and what can raise there.\<close>

datatype 'v action = Connect | Execute "'v stmt" | Commit

text \<open>The lines the program prints.\<close>

datatype log_line =
    TablesFound "string list"
  | ColumnsFor string "string list"
  | CreatingTable string
  | CreatingIndex string string
  | IndexWarning string string
  | SqliteColumns string "string list"
  | BatchError int string string
  | InsertedBatch int string
  | NoData string
  | MigrationComplete

text \<open>
  The observable events of a run, oldest first: opening the source, each action on the
  target with the message of the exception it raised (if it did), each printed line, and
  the four calls of \<^verbatim>\<open>close\<close>.
\<close>

datatype 'v event =
    OpenSqlite
  | Did "'v action" "string option"
  | Print log_line
  | CloseCursorMysql
  | CloseMysql
  | CloseCursorSqlite
  | CloseSqlite

text \<open>
  The source database is its catalog and, for each table name, the column names
  (\<^verbatim>\<open>cursor.description\<close>) and the rows (\<^verbatim>\<open>fetchall\<close>) of
  \<^verbatim>\<open>SELECT * FROM table\<close>; reading the source is taken not to raise. The target is
  known only by when it raises: given the events so far and the action asked, it answers
  with the message of the exception, or \<open>None\<close> when the action succeeds.
\<close>

record 'v source_db =
  sqlite_master :: "master_row list"
  select_all :: "string \<Rightarrow> string list \<times> 'v list list"

type_synonym 'v target = "'v event list \<Rightarrow> 'v action \<Rightarrow> string option"

text \<open>An exception that leaves \<^verbatim>\<open>main\<close>: raised by the target outside the two
  \<^verbatim>\<open>try\<close> blocks, or the \<^verbatim>\<open>ValueError\<close> of \<^verbatim>\<open>range\<close> with step zero.\<close>

datatype exn = DbError string | ValueError

text \<open>The state of a run: the events so far and the exception that is propagating, if any.\<close>

type_synonym 'v run = "'v event list \<times> exn option"

definition attempt :: "'v target \<Rightarrow> 'v action \<Rightarrow> 'v event list \<Rightarrow> 'v event list \<times> string option" where
  "attempt tgt a h = (h @ [Did a (tgt h a)], tgt h a)"

text \<open>An action outside any \<^verbatim>\<open>try\<close>: its exception propagates.\<close>

definition must :: "'v target \<Rightarrow> 'v action \<Rightarrow> 'v event list \<Rightarrow> 'v run" where
  "must tgt a h = (h @ [Did a (tgt h a)], map_option DbError (tgt h a))"

text \<open>Sequencing: the rest of the code runs only when nothing is propagating.\<close>

definition and_then :: "'v run \<Rightarrow> ('v event list \<Rightarrow> 'v run) \<Rightarrow> 'v run" where
  "and_then r k = (case snd r of None \<Rightarrow> k (fst r) | Some e \<Rightarrow> r)"

subsection \<open>Indexes of one table\<close>

text \<open>Lines 91 to 101: each index statement is executed inside its own \<^verbatim>\<open>try\<close>; an
  exception is printed as a warning and the loop goes on.\<close>

fun create_indexes :: "'v target \<Rightarrow> string \<Rightarrow> index_desc list \<Rightarrow> 'v event list \<Rightarrow> 'v event list" where
  "create_indexes tgt table [] h = h"
| "create_indexes tgt table (idx # indexes) h =
     (let idx_sql = CreateIndex (idx_unique idx) (idx_name idx) table (idx_columns idx);
          h1 = h @ [Print (CreatingIndex table (sql_text idx_sql))];
          (h2, raised) = attempt tgt (Execute idx_sql) h1;
          h3 = (case raised of
                  None \<Rightarrow> h2
                | Some e \<Rightarrow> h2 @ [Print (IndexWarning (idx_name idx) e)])
      in create_indexes tgt table indexes h3)"

subsection \<open>Rows of one table, in batches\<close>

text \<open>\<^verbatim>\<open>range(start, stop, step)\<close> as the list of its values; step zero raises.\<close>

function range_up :: "int \<Rightarrow> int \<Rightarrow> int \<Rightarrow> int list" where
  "range_up i stop step =
     (if 0 < step \<and> i < stop then i # range_up (i + step) stop step else [])"
  by pat_completeness auto
termination
  by (relation "measure (\<lambda>(i, stop, step). nat (stop - i))") auto

function range_down :: "int \<Rightarrow> int \<Rightarrow> int \<Rightarrow> int list" where
  "range_down i stop step =
     (if step < 0 \<and> stop < i then i # range_down (i + step) stop step else [])"
  by pat_completeness auto
termination
  by (relation "measure (\<lambda>(i, stop, step). nat (i - stop))") auto

definition py_range :: "int \<Rightarrow> int \<Rightarrow> int \<Rightarrow> exn + int list" where
  "py_range start stop step =
     (if step = 0 then Inl ValueError
      else if 0 < step then Inr (range_up start stop step)
      else Inr (range_down start stop step))"

text \<open>\<^verbatim>\<open>rows[i:j]\<close> for indices that are not negative, as they are in the loop.\<close>

definition slice :: "'a list \<Rightarrow> int \<Rightarrow> int \<Rightarrow> 'a list" where
  "slice xs i j = drop (nat i) (take (nat j) xs)"

text \<open>The body of the batch loop, lines 110 to 119: the insert and its commit share one
  \<^verbatim>\<open>try\<close>; the line \<^verbatim>\<open>Inserted batch\<close> is printed whether or not they raised.\<close>

definition insert_batch ::
  "'v target \<Rightarrow> string \<Rightarrow> string list \<Rightarrow> 'v list list \<Rightarrow> int \<Rightarrow> int \<Rightarrow> 'v event list \<Rightarrow> 'v event list" where
  "insert_batch tgt table cols rows batch_size i h =
     (let batch = slice rows i (i + batch_size);
          (h1, raised1) = attempt tgt (Execute (Insert table cols batch)) h;
          (h2, raised2) = (case raised1 of
                             None \<Rightarrow> attempt tgt Commit h1
                           | Some e \<Rightarrow> (h1, Some e));
          h3 = (case raised2 of
                  None \<Rightarrow> h2
                | Some e \<Rightarrow> h2 @ [Print (BatchError (i div batch_size + 1) table e)])
      in h3 @ [Print (InsertedBatch (i div batch_size + 1) table)])"

fun batch_loop ::
  "'v target \<Rightarrow> string \<Rightarrow> string list \<Rightarrow> 'v list list \<Rightarrow> int \<Rightarrow> int list \<Rightarrow> 'v event list \<Rightarrow> 'v event list" where
  "batch_loop tgt table cols rows batch_size [] h = h"
| "batch_loop tgt table cols rows batch_size (i # is) h =
     batch_loop tgt table cols rows batch_size is
       (insert_batch tgt table cols rows batch_size i h)"

text \<open>Lines 106 to 121, after the rows and the column names have been read.\<close>

definition transfer ::
  "'v target \<Rightarrow> string \<Rightarrow> string list \<Rightarrow> 'v list list \<Rightarrow> int \<Rightarrow> 'v event list \<Rightarrow> 'v run" where
  "transfer tgt table cols rows batch_size h =
     (if rows \<noteq> [] then
        (let h1 = h @ [Print (SqliteColumns table cols)] in
         case py_range 0 (int (length rows)) batch_size of
           Inl e \<Rightarrow> (h1, Some e)
         | Inr is \<Rightarrow> (batch_loop tgt table cols rows batch_size is h1, None))
      else (h @ [Print (NoData table)], None))"

subsection \<open>One table, all tables, the run\<close>

text \<open>\<^verbatim>\<open>fetchone\<close> on the creation text of a table, lines 76 and 77: \<open>None\<close> when no row
  matches, otherwise the (possibly \<^verbatim>\<open>NULL\<close>) text of the first matching row.\<close>

definition fetch_schema :: "master_row list \<Rightarrow> string \<Rightarrow> string option option" where
  "fetch_schema master table =
     map_option m_sql (find (\<lambda>r. m_type r = ''table'' \<and> m_name r = table) master)"

text \<open>The body of the loop over the tables, lines 76 to 121.\<close>

definition migrate_table ::
  "'v target \<Rightarrow> 'v source_db \<Rightarrow> int \<Rightarrow> string \<Rightarrow> 'v event list \<Rightarrow> 'v run" where
  "migrate_table tgt src batch_size table h =
     (case fetch_schema (sqlite_master src) table of
        Some (Some schema) \<Rightarrow>
          if schema = [] then (h, None)
          else
            (let columns = parse_columns schema;
                 h1 = h @ [Print (ColumnsFor table (map fst columns)),
                           Print (CreatingTable table)]
             in and_then (must tgt (Execute (DropTable table)) h1) (\<lambda>h2.
                and_then (must tgt (Execute (CreateTable table columns)) h2) (\<lambda>h3.
                and_then (must tgt Commit h3) (\<lambda>h4.
                  (let h5 = create_indexes tgt table (get_indexes (sqlite_master src) table) h4;
                       (cols, rows) = select_all src table
                   in transfer tgt table cols rows batch_size h5)))))
      | _ \<Rightarrow> (h, None))"

fun migrate_tables ::
  "'v target \<Rightarrow> 'v source_db \<Rightarrow> int \<Rightarrow> string list \<Rightarrow> 'v event list \<Rightarrow> 'v run" where
  "migrate_tables tgt src batch_size [] h = (h, None)"
| "migrate_tables tgt src batch_size (table # tables) h =
     and_then (migrate_table tgt src batch_size table h)
       (migrate_tables tgt src batch_size tables)"

text \<open>\<^verbatim>\<open>main\<close>, lines 57 to 127. The four \<^verbatim>\<open>close\<close> calls stand after the loop, outside
  any \<^verbatim>\<open>finally\<close>: they run only when nothing propagated.\<close>

definition main :: "'v target \<Rightarrow> 'v source_db \<Rightarrow> int \<Rightarrow> 'v run" where
  "main tgt src batch_size =
     and_then (must tgt Connect [OpenSqlite]) (\<lambda>h1.
       (let tables = get_tables (sqlite_master src);
            h2 = h1 @ [Print (TablesFound tables)]
        in and_then (migrate_tables tgt src batch_size tables h2) (\<lambda>h3.
             (h3 @ [CloseCursorMysql, CloseMysql, CloseCursorSqlite, CloseSqlite,
                    Print MigrationComplete], None))))"

subsection \<open>Reading a run\<close>

text \<open>The statements sent to the target, in order, whether or not they raised.\<close>

fun statements :: "'v event list \<Rightarrow> 'v stmt list" where
  "statements [] = []"
| "statements (Did (Execute s) r # es) = s # statements es"
| "statements (e # es) = statements es"

fun is_close :: "'v event \<Rightarrow> bool" where
  "is_close CloseCursorMysql = True"
| "is_close CloseMysql = True"
| "is_close CloseCursorSqlite = True"
| "is_close CloseSqlite = True"
| "is_close _ = False"

subsection \<open>Sample databases\<close>

text \<open>The scenario of the specification: table \<open>users(id INT, name TEXT)\<close> with three rows
  and an index on \<open>name\<close>; an internal table and a table without creation text stand
  beside it.\<close>

definition users_master :: "master_row list" where
  "users_master =
     [\<lparr>m_type = ''table'', m_name = ''sqlite_sequence'', m_tbl_name = ''sqlite_sequence'',
        m_sql = Some ''CREATE TABLE sqlite_sequence(name,seq)''\<rparr>,
      \<lparr>m_type = ''table'', m_name = ''ghost'', m_tbl_name = ''ghost'', m_sql = None\<rparr>,
      \<lparr>m_type = ''table'', m_name = ''users'', m_tbl_name = ''users'',
        m_sql = Some ''CREATE TABLE users(id INT, name TEXT)''\<rparr>,
      \<lparr>m_type = ''index'', m_name = ''ix'', m_tbl_name = ''users'',
        m_sql = Some ''CREATE INDEX ix ON users(name)''\<rparr>]"

datatype sqlval = IntV int | TextV string

definition users_rows :: "sqlval list list" where
  "users_rows = [ [IntV 1, TextV ''a''], [IntV 2, TextV ''b''], [IntV 3, TextV ''c''] ]"

definition users_db :: "sqlval source_db" where
  "users_db = \<lparr>sqlite_master = users_master,
               select_all = (\<lambda>table. if table = ''users'' then ([''id'', ''name''], users_rows)
                                      else ([], []))\<rparr>"

text \<open>Targets: one that never raises, one that rejects every index and every insert, one
  that rejects the creation of a table.\<close>

definition tgt_ok :: "'v target" where
  "tgt_ok h a = None"

fun tgt_rejects :: "'v target" where
  "tgt_rejects h (Execute (CreateIndex unique name table columns)) = Some ''rejected''"
| "tgt_rejects h (Execute (Insert table cols batch)) = Some ''rejected''"
| "tgt_rejects h a = None"

fun tgt_no_create :: "'v target" where
  "tgt_no_create h (Execute (CreateTable table columns)) = Some ''denied''"
| "tgt_no_create h a = None"

subsection \<open>Failures and their reports\<close>

text \<open>The actions that stand inside a \<^verbatim>\<open>try\<close> block of the program: executing an index
  statement (line 99), executing an insert (line 115), and the commit that follows a
  successful insert (line 116).\<close>

fun in_try :: "'v event list \<Rightarrow> 'v action \<Rightarrow> bool" where
  "in_try h (Execute (CreateIndex unique name table columns)) = True"
| "in_try h (Execute (Insert table cols batch)) = True"
| "in_try h Commit =
     (case rev h of
        Did (Execute (Insert table cols batch)) None # _ \<Rightarrow> True
      | _ \<Rightarrow> False)"
| "in_try h a = False"

text \<open>The messages of the exceptions the target raised, and the messages of the warnings
  and errors the program printed, both in order.\<close>

fun raised :: "'v event list \<Rightarrow> string list" where
  "raised [] = []"
| "raised (Did a (Some e) # es) = e # raised es"
| "raised (ev # es) = raised es"

fun reports :: "'v event list \<Rightarrow> string list" where
  "reports [] = []"
| "reports (Print (IndexWarning name e) # es) = e # reports es"
| "reports (Print (BatchError n table e) # es) = e # reports es"
| "reports (ev # es) = reports es"

text \<open>The statements of one table when nothing raises: drop, create, one statement per
  index, one insert per batch.\<close>

definition table_plan :: "'v source_db \<Rightarrow> int \<Rightarrow> string \<Rightarrow> 'v stmt list" where
  "table_plan src batch_size table =
     (case fetch_schema (sqlite_master src) table of
        Some (Some schema) \<Rightarrow>
          if schema = [] then []
          else
            [DropTable table, CreateTable table (parse_columns schema)] @
            map (\<lambda>idx. CreateIndex (idx_unique idx) (idx_name idx) table (idx_columns idx))
              (get_indexes (sqlite_master src) table) @
            (case select_all src table of
               (cols, rows) \<Rightarrow>
                 map (\<lambda>i. Insert table cols (slice rows i (i + batch_size)))
                   (range_up 0 (int (length rows)) batch_size))
      | _ \<Rightarrow> [])"

text \<open>A catalog with the index of the specification's example.\<close>

definition idx1_master :: "master_row list" where
  "idx1_master =
     [\<lparr>m_type = ''index'', m_name = ''idx1'', m_tbl_name = ''t'',
        m_sql = Some ''CREATE UNIQUE INDEX idx1 ON t (x, y)''\<rparr>]"

text \<open>A database whose one index is not unique but has the letters \<open>unique\<close> in its name.\<close>

definition unique_ix_db :: "sqlval source_db" where
  "unique_ix_db =
     \<lparr>sqlite_master =
        [\<lparr>m_type = ''table'', m_name = ''t'', m_tbl_name = ''t'',
           m_sql = Some ''CREATE TABLE t(a INT)''\<rparr>,
         \<lparr>m_type = ''index'', m_name = ''unique_ix'', m_tbl_name = ''t'',
           m_sql = Some ''CREATE INDEX unique_ix ON t ([a])''\<rparr>],
      select_all = (\<lambda>table. ([''a''], []))\<rparr>"

section \<open>The type mapper follows the rule list\<close>

lemma upper_char_idem: "upper_char (upper_char c) = upper_char c"
  by (simp add: upper_char_def)

lemma upper_idem: "upper (upper s) = upper s"
  by (simp add: upper_def upper_char_idem)

text \<open>Upper-casing a character gives a capital letter exactly for the two forms of that
  letter.\<close>

lemma upper_char_same_letter:
  assumes "k \<in> set ''ABCDEFGHIJKLMNOPQRSTUVWXYZ''"
  shows "(upper_char c = k) = spec_same_letter k c"
proof -
  from assms
  have "k = CHR ''A'' \<or> k = CHR ''B'' \<or> k = CHR ''C'' \<or> k = CHR ''D'' \<or> k = CHR ''E''
      \<or> k = CHR ''F'' \<or> k = CHR ''G'' \<or> k = CHR ''H'' \<or> k = CHR ''I'' \<or> k = CHR ''J''
      \<or> k = CHR ''K'' \<or> k = CHR ''L'' \<or> k = CHR ''M'' \<or> k = CHR ''N'' \<or> k = CHR ''O''
      \<or> k = CHR ''P'' \<or> k = CHR ''Q'' \<or> k = CHR ''R'' \<or> k = CHR ''S'' \<or> k = CHR ''T''
      \<or> k = CHR ''U'' \<or> k = CHR ''V'' \<or> k = CHR ''W'' \<or> k = CHR ''X'' \<or> k = CHR ''Y''
      \<or> k = CHR ''Z''"
    by simp
  then show ?thesis
    by (elim disjE) (auto simp add: upper_char_def spec_same_letter_def)
qed

lemma startswith_upper:
  "set kw \<subseteq> set ''ABCDEFGHIJKLMNOPQRSTUVWXYZ'' \<Longrightarrow>
     startswith (upper t) kw = spec_prefix kw t"
proof (induction kw t rule: spec_prefix.induct)
  case (1 t)
  show ?case by simp
next
  case (2 k ks)
  show ?case by (simp add: upper_def)
next
  case (3 k ks c cs)
  have k: "k \<in> set ''ABCDEFGHIJKLMNOPQRSTUVWXYZ''"
    using 3(2) by (meson list.set_intros(1) subsetD)
  have ks: "set ks \<subseteq> set ''ABCDEFGHIJKLMNOPQRSTUVWXYZ''"
    using 3(2) by (meson set_subset_Cons subset_trans)
  have "startswith (upper cs) ks = spec_prefix ks cs"
    using 3(1) ks by simp
  then show ?case
    using upper_char_same_letter [OF k, of c] by (simp add: upper_def)
qed

lemma contains_upper:
  "set kw \<subseteq> set ''ABCDEFGHIJKLMNOPQRSTUVWXYZ'' \<Longrightarrow>
     contains kw (upper t) = spec_occurs kw t"
proof (induction t)
  case Nil
  show ?case by (simp add: upper_def)
next
  case (Cons c cs)
  have "startswith (upper (c # cs)) kw = spec_prefix kw (c # cs)"
    using Cons.prems by (rule startswith_upper)
  moreover have "contains kw (upper cs) = spec_occurs kw cs"
    using Cons by simp
  ultimately show ?case by (simp add: upper_def)
qed

lemma mapper_follows_rules: "sqlite_type_to_mysql tok = spec_mapType tok"
proof -
  have c: "contains kw (upper tok) = spec_occurs kw tok"
    if "set kw \<subseteq> set ''ABCDEFGHIJKLMNOPQRSTUVWXYZ''" for kw
    using that by (rule contains_upper)
  have "contains ''INT'' (upper tok) = spec_occurs ''INT'' tok"
    "contains ''CHAR'' (upper tok) = spec_occurs ''CHAR'' tok"
    "contains ''CLOB'' (upper tok) = spec_occurs ''CLOB'' tok"
    "contains ''TEXT'' (upper tok) = spec_occurs ''TEXT'' tok"
    "contains ''BLOB'' (upper tok) = spec_occurs ''BLOB'' tok"
    "contains ''REAL'' (upper tok) = spec_occurs ''REAL'' tok"
    "contains ''FLOA'' (upper tok) = spec_occurs ''FLOA'' tok"
    "contains ''DOUB'' (upper tok) = spec_occurs ''DOUB'' tok"
    "contains ''DATE'' (upper tok) = spec_occurs ''DATE'' tok"
    "contains ''TIME'' (upper tok) = spec_occurs ''TIME'' tok"
    by (rule c, simp)+
  then show ?thesis
    by (simp add: sqlite_type_to_mysql_def spec_mapType_def spec_rules_def Let_def)
qed

text \<open>
  Claim C2. The type mapper is a total function of its argument alone. On every string it
  returns the target type of the first rule of the specification's ordered rule list that
  has a keyword occurring in the token, where letters are compared without regard to
  case, and \<open>TEXT\<close> when no rule applies; the rule list is stated without the code's
  upper-casing. The result is always one of the five target types and does not change when
  the token is upper-cased first. The six sample tokens map as the specification lists
  them; so do tokens in lower and mixed case; and where two rules apply, the earlier one
  wins (\<open>text_int\<close> is \<open>INT\<close>, \<open>datetime blob\<close> is \<open>BLOB\<close>).
\<close>

theorem sqlite_type_to_mysql_rules:
  "sqlite_type_to_mysql tok = spec_mapType tok
   \<and> sqlite_type_to_mysql (upper tok) = sqlite_type_to_mysql tok
   \<and> sqlite_type_to_mysql tok \<in> set [''INT'', ''TEXT'', ''BLOB'', ''DOUBLE'', ''DATETIME'']
   \<and> sqlite_type_to_mysql ''INTEGER'' = ''INT''
   \<and> sqlite_type_to_mysql ''VARCHAR(255)'' = ''TEXT''
   \<and> sqlite_type_to_mysql ''BLOB'' = ''BLOB''
   \<and> sqlite_type_to_mysql ''REAL'' = ''DOUBLE''
   \<and> sqlite_type_to_mysql ''TIMESTAMP'' = ''DATETIME''
   \<and> sqlite_type_to_mysql '''' = ''TEXT''
   \<and> sqlite_type_to_mysql ''integer'' = ''INT''
   \<and> sqlite_type_to_mysql ''VarChar(255)'' = ''TEXT''
   \<and> sqlite_type_to_mysql ''blob'' = ''BLOB''
   \<and> sqlite_type_to_mysql ''Real'' = ''DOUBLE''
   \<and> sqlite_type_to_mysql ''timestamp'' = ''DATETIME''
   \<and> sqlite_type_to_mysql ''text_int'' = ''INT''
   \<and> sqlite_type_to_mysql ''datetime blob'' = ''BLOB''
   \<and> sqlite_type_to_mysql ''json'' = ''TEXT''"
proof -
  have rules: "sqlite_type_to_mysql tok = spec_mapType tok"
    by (rule mapper_follows_rules)
  have nocase: "sqlite_type_to_mysql (upper tok) = sqlite_type_to_mysql tok"
    by (simp add: sqlite_type_to_mysql_def upper_idem)
  have range: "sqlite_type_to_mysql tok \<in> set [''INT'', ''TEXT'', ''BLOB'', ''DOUBLE'', ''DATETIME'']"
    by (simp add: sqlite_type_to_mysql_def Let_def)
  have v1: "sqlite_type_to_mysql ''INTEGER'' = ''INT''" by code_simp
  have v2: "sqlite_type_to_mysql ''VARCHAR(255)'' = ''TEXT''" by code_simp
  have v3: "sqlite_type_to_mysql ''BLOB'' = ''BLOB''" by code_simp
  have v4: "sqlite_type_to_mysql ''REAL'' = ''DOUBLE''" by code_simp
  have v5: "sqlite_type_to_mysql ''TIMESTAMP'' = ''DATETIME''" by code_simp
  have v6: "sqlite_type_to_mysql '''' = ''TEXT''" by code_simp
  have w1: "sqlite_type_to_mysql ''integer'' = ''INT''" by code_simp
  have w2: "sqlite_type_to_mysql ''VarChar(255)'' = ''TEXT''" by code_simp
  have w3: "sqlite_type_to_mysql ''blob'' = ''BLOB''" by code_simp
  have w4: "sqlite_type_to_mysql ''Real'' = ''DOUBLE''" by code_simp
  have w5: "sqlite_type_to_mysql ''timestamp'' = ''DATETIME''" by code_simp
  have w6: "sqlite_type_to_mysql ''text_int'' = ''INT''" by code_simp
  have w7: "sqlite_type_to_mysql ''datetime blob'' = ''BLOB''" by code_simp
  have w8: "sqlite_type_to_mysql ''json'' = ''TEXT''" by code_simp
  from rules nocase range v1 v2 v3 v4 v5 v6 w1 w2 w3 w4 w5 w6 w7 w8 show ?thesis
    by (intro conjI)
qed

section \<open>Column parsing\<close>

lemma parse_parts_append:
  "parse_parts (xs @ ys) col_defs = parse_parts ys (parse_parts xs col_defs)"
  by (induction xs arbitrary: col_defs) (auto simp: Let_def split: option.splits)

lemma startswith_any_member:
  "p \<in> set ps \<Longrightarrow> startswith s p \<Longrightarrow> startswith_any s ps"
  by (induction ps) auto

lemma search_parens_None:
  assumes "\<not> (\<exists>pre mid post. schema = pre @ ''('' @ mid @ '')'' @ post)"
  shows "search_parens schema = None"
proof (cases "dropWhile (\<lambda>x. x \<noteq> CHR ''('') schema")
  case Nil
  show ?thesis unfolding search_parens_def Nil by simp
next
  case (Cons c rest)
  have c: "c = CHR ''(''"
    using hd_dropWhile [of "\<lambda>x. x \<noteq> CHR ''(''" schema] Cons by auto
  have schema: "schema = takeWhile (\<lambda>x. x \<noteq> CHR ''('') schema @ ''('' @ rest"
    using takeWhile_dropWhile_id [of "\<lambda>x. x \<noteq> CHR ''(''" schema] Cons c by simp
  have "CHR '')'' \<notin> set rest"
  proof
    assume "CHR '')'' \<in> set rest"
    then obtain mid post where "rest = mid @ CHR '')'' # post"
      by (auto simp: in_set_conv_decomp)
    with schema
    have "schema = takeWhile (\<lambda>x. x \<noteq> CHR ''('') schema @ ''('' @ mid @ '')'' @ post"
      by simp
    with assms show False by blast
  qed
  with Cons show ?thesis by (simp add: search_parens_def)
qed

lemma group_needs_open:
  assumes "schema = pre @ ''('' @ mid @ '')'' @ post"
  shows "CHR ''('' \<in> set (butlast schema)"
proof -
  have "butlast schema = pre @ ''('' @ butlast (mid @ '')'' @ post)"
    unfolding assms by (simp add: butlast_append)
  then show ?thesis by simp
qed

text \<open>
  Claim C4, as the code has it. The sample input is not a counterexample to the splitting:
  the text between the outer parentheses is cut into the three clauses \<open>a INT\<close>,
  \<open>b DECIMAL(10,2)\<close> and \<open>c TEXT\<close>, the comma inside \<open>DECIMAL(10,2)\<close> being no separator.
  The type token taken from the clause of \<open>b\<close>, however, is not \<open>DECIMAL(10,2)\<close>: the
  token is a run of characters that are neither white space nor a comma, so it ends before
  the comma.
\<close>

theorem decimal_type_token_cut:
  "search_parens ''(a INT, b DECIMAL(10,2), c TEXT)'' = Some ''a INT, b DECIMAL(10,2), c TEXT''
   \<and> split_columns ''a INT, b DECIMAL(10,2), c TEXT''
       = [''a INT'', ''b DECIMAL(10,2)'', ''c TEXT'']
   \<and> col_match (strip ''b DECIMAL(10,2)'') \<noteq> Some (''b'', ''DECIMAL(10,2)'')"
  by code_simp

text \<open>
  Claim C4, amended. On \<open>(a INT, b DECIMAL(10,2), c TEXT)\<close> the parser returns exactly three
  columns, \<open>a\<close>, \<open>b\<close> and \<open>c\<close> in this order, with the target types \<open>INT\<close>, \<open>TEXT\<close> and
  \<open>TEXT\<close>. The clause of \<open>b\<close> is kept in one piece, \<open>b DECIMAL(10,2)\<close>; the type token
  extracted from it is \<open>DECIMAL(10\<close>, the characters up to the comma.
\<close>

theorem parse_columns_decimal:
  "parse_columns ''(a INT, b DECIMAL(10,2), c TEXT)''
     = [(''a'', ''INT''), (''b'', ''TEXT''), (''c'', ''TEXT'')]
   \<and> search_parens ''(a INT, b DECIMAL(10,2), c TEXT)'' = Some ''a INT, b DECIMAL(10,2), c TEXT''
   \<and> split_columns ''a INT, b DECIMAL(10,2), c TEXT''
       = [''a INT'', ''b DECIMAL(10,2)'', ''c TEXT'']
   \<and> map (\<lambda>part. col_match (strip part)) [''a INT'', ''b DECIMAL(10,2)'', ''c TEXT'']
       = [Some (''a'', ''INT''), Some (''b'', ''DECIMAL(10''), Some (''c'', ''TEXT'')]"
  by code_simp

text \<open>
  What the loop does by its own test: a clause whose trimmed, upper-cased text starts with
  one of the four texts \<open>CONSTRAINT\<close>, \<open>PRIMARY KEY\<close>, \<open>UNIQUE\<close>, \<open>FOREIGN KEY\<close> contributes
  nothing, and the parser returns what it returns for the clauses before and after it.
\<close>

lemma parse_columns_skips_prefixed:
  assumes "search_parens schema = Some cols"
    and "split_columns cols = before @ clause # after"
    and "kw \<in> set [''CONSTRAINT'', ''PRIMARY KEY'', ''UNIQUE'', ''FOREIGN KEY'']"
    and "startswith (upper (strip clause)) kw"
  shows "parse_columns schema = parse_parts (before @ after) []"
proof -
  have "startswith_any (upper (strip clause)) constraint_keywords"
    using assms(3,4)
    by (intro startswith_any_member [of kw]) (simp_all add: constraint_keywords_def)
  then have "parse_parts (clause # after) acc = parse_parts after acc" for acc
    by (simp add: Let_def)
  then show ?thesis
    using assms(1,2) by (simp add: parse_columns_def parse_parts_append)
qed

text \<open>The sample of the specification, \<open>(a INT, PRIMARY KEY(a))\<close>, yields the one column \<open>a\<close>,
  and so does the same text with the keyword in lower case.\<close>

lemma parse_columns_skips_prefixed_samples:
  "parse_columns ''(a INT, PRIMARY KEY(a))'' = [(''a'', ''INT'')]
   \<and> parse_columns ''(a INT, primary key(a))'' = [(''a'', ''INT'')]
   \<and> parse_columns ''(a INT, Constraint pk Primary Key (a), unique (a))'' = [(''a'', ''INT'')]"
  by code_simp

text \<open>
  Claim C6. The test of the loop is a comparison of texts, with \<open>PRIMARY\<close> and \<open>KEY\<close> (and
  \<open>FOREIGN\<close> and \<open>KEY\<close>) exactly one blank apart, so the claim does not hold of the code for
  every clause whose leading keyword is \<open>PRIMARY KEY\<close>. In
  \<open>CREATE TABLE t (a INT, PRIMARY  KEY(a))\<close> the column list is split into \<open>a INT\<close> and
  \<open>PRIMARY  KEY(a)\<close>; the second clause begins with the keyword \<open>PRIMARY KEY\<close>, written with
  two blanks, and is not dropped: the parser returns a second column, named \<open>PRIMARY\<close>, of
  type \<open>TEXT\<close>. The same happens with a tabulator or a line break between the two words.
  With one blank the clause is dropped, in either letter case.
\<close>

theorem primary_key_two_blanks_kept:
  "parse_columns ''CREATE TABLE t (a INT, PRIMARY  KEY(a))''
     = [(''a'', ''INT''), (''PRIMARY'', ''TEXT'')]
   \<and> search_parens ''CREATE TABLE t (a INT, PRIMARY  KEY(a))'' = Some ''a INT, PRIMARY  KEY(a)''
   \<and> split_columns ''a INT, PRIMARY  KEY(a)'' = [''a INT'', ''PRIMARY  KEY(a)'']
   \<and> spec_leading_keyword [''PRIMARY'', ''KEY''] ''PRIMARY  KEY(a)''
   \<and> parse_columns (''CREATE TABLE t (a INT, PRIMARY'' @ [CHR 0x09] @ ''KEY(a))'')
       = [(''a'', ''INT''), (''PRIMARY'', ''TEXT'')]
   \<and> parse_columns (''CREATE TABLE t (a INT, foreign'' @ [CHR 0x0A] @ ''key (a) references u(b))'')
       = [(''a'', ''INT''), (''foreign'', ''TEXT'')]
   \<and> parse_columns ''CREATE TABLE t (a INT, PRIMARY KEY(a))'' = [(''a'', ''INT'')]
   \<and> parse_columns ''CREATE TABLE t ( a INT ,  primary key (a) )'' = [(''a'', ''INT'')]
   \<and> spec_leading_keyword [''PRIMARY'', ''KEY''] ''primary key (a) ''"
  by code_simp

text \<open>
  Claim C8. A schema text without a parenthesized group, that is, without an opening
  parenthesis that has a closing one somewhere after it, is parsed to the empty list of
  columns; the function returns and raises nothing.
\<close>

theorem parse_columns_no_group:
  assumes "\<not> (\<exists>pre mid post. schema = pre @ ''('' @ mid @ '')'' @ post)"
  shows "parse_columns schema = []"
  using search_parens_None [OF assms] by (simp add: parse_columns_def)

theorem parse_columns_no_group_witness:
  "parse_columns ''CREATE TABLE t'' = [] \<and> parse_columns '')a INT('' = []"
proof -
  have h1: "\<not> (\<exists>pre mid post. ''CREATE TABLE t'' = pre @ ''('' @ mid @ '')'' @ post)"
  proof
    assume "\<exists>pre mid post. ''CREATE TABLE t'' = pre @ ''('' @ mid @ '')'' @ post"
    then obtain pre mid post where "''CREATE TABLE t'' = pre @ ''('' @ mid @ '')'' @ post"
      by blast
    from group_needs_open [OF this] show False by simp
  qed
  have h2: "\<not> (\<exists>pre mid post. '')a INT('' = pre @ ''('' @ mid @ '')'' @ post)"
  proof
    assume "\<exists>pre mid post. '')a INT('' = pre @ ''('' @ mid @ '')'' @ post"
    then obtain pre mid post where "'')a INT('' = pre @ ''('' @ mid @ '')'' @ post"
      by blast
    from group_needs_open [OF this] show False by simp
  qed
  from parse_columns_no_group [OF h1] parse_columns_no_group [OF h2] show ?thesis by simp
qed

section \<open>Index parsing\<close>

lemma first_group_skip:
  "CHR ''('' \<notin> set pre \<Longrightarrow> first_group (pre @ rest) = first_group rest"
  by (induction pre) auto

lemma first_group_at_open:
  assumes "CHR '')'' \<notin> set grp" and "grp \<noteq> []"
  shows "first_group (''('' @ grp @ '')'' @ post) = Some grp"
proof -
  have t: "takeWhile (\<lambda>x. x \<noteq> CHR '')'') (grp @ CHR '')'' # post) = grp"
    using assms(1) by (subst takeWhile_append2) auto
  have d: "dropWhile (\<lambda>x. x \<noteq> CHR '')'') (grp @ CHR '')'' # post) = CHR '')'' # post"
    using assms(1) by (subst dropWhile_append2) auto
  show ?thesis using t d assms(2) by simp
qed

lemma index_loop_acc: "index_loop rows acc = acc @ index_loop rows []"
proof (induction rows arbitrary: acc)
  case Nil
  show ?case by simp
next
  case (Cons r rows)
  obtain name sql where r: "r = (name, sql)" by (cases r)
  show ?case
  proof (cases "first_group sql")
    case None
    then show ?thesis using Cons.IH [of acc] by (simp add: r)
  next
    case (Some grp)
    define d where "d = \<lparr>idx_name = name, idx_unique = contains ''UNIQUE'' (upper sql),
      idx_columns = index_columns grp\<rparr>"
    from Some show ?thesis
      using Cons.IH [of "acc @ [d]"] Cons.IH [of "[d]"]
      by (simp add: r Let_def d_def)
  qed
qed

lemma index_loop_append:
  "index_loop (xs @ ys) acc = index_loop ys (index_loop xs acc)"
  by (induction xs arbitrary: acc) (auto simp: Let_def split: option.splits)

text \<open>
  What the parser does with a row whose creation text has a parenthesized group: after the
  first opening parenthesis of the text come the characters \<open>grp\<close>, at least one and none of
  them a closing parenthesis, and then a closing parenthesis. It produces, at the row's
  place among the descriptors, the descriptor with the row's name, with \<open>unique\<close> true
  exactly when the letters \<open>UNIQUE\<close> occur anywhere in the upper-cased text, and with the
  columns obtained by splitting \<open>grp\<close> at its commas, each piece trimmed of white space and
  then of backquotes, double quotes and square brackets, in the order of the text.
\<close>

lemma get_indexes_row:
  assumes "select_indexes master table = before @ (name, sql) # after"
    and "sql = pre @ ''('' @ grp @ '')'' @ post"
    and "CHR ''('' \<notin> set pre" and "CHR '')'' \<notin> set grp" and "grp \<noteq> []"
  shows "get_indexes master table =
           index_loop before [] @
           [\<lparr>idx_name = name,
             idx_unique = contains ''UNIQUE'' (upper sql),
             idx_columns =
               map (\<lambda>col. strip_chars [CHR 0x60, CHR 0x22, CHR ''['', CHR '']''] (strip col))
                 (split_on (CHR '','') grp)\<rparr>] @
           index_loop after []"
proof -
  define d where "d = \<lparr>idx_name = name, idx_unique = contains ''UNIQUE'' (upper sql),
    idx_columns = index_columns grp\<rparr>"
  have g: "first_group sql = Some grp"
    unfolding assms(2)
    using first_group_skip [OF assms(3)] first_group_at_open [OF assms(4,5)] by simp
  have "index_loop ((name, sql) # after) acc = index_loop after (acc @ [d])" for acc
    using g by (simp add: Let_def d_def)
  then have "get_indexes master table = index_loop after (index_loop before [] @ [d])"
    by (simp add: get_indexes_def assms(1) index_loop_append)
  also have "\<dots> = (index_loop before [] @ [d]) @ index_loop after []"
    by (rule index_loop_acc)
  finally show ?thesis by (simp add: d_def index_columns_def)
qed

text \<open>The sample of the specification: \<open>CREATE UNIQUE INDEX idx1 ON t (x, y)\<close> yields name
  \<open>idx1\<close>, unique, columns \<open>x\<close> and \<open>y\<close>. Quoted and bracketed column names lose their
  quotes, and the keyword is found in lower case too.\<close>

lemma get_indexes_row_samples:
  "get_indexes idx1_master ''t''
     = [\<lparr>idx_name = ''idx1'', idx_unique = True, idx_columns = [''x'', ''y'']\<rparr>]
   \<and> index_loop [(''i2'', ''create unique index i2 on t ( [x] ,'' @ [CHR 0x60] @ ''y''
                    @ [CHR 0x60] @ '', '' @ [CHR 0x22] @ ''z'' @ [CHR 0x22] @ '' )'')] []
     = [\<lparr>idx_name = ''i2'', idx_unique = True, idx_columns = [''x'', ''y'', ''z'']\<rparr>]
   \<and> index_loop [(''ix'', ''CREATE INDEX ix ON users(name)'')] []
     = [\<lparr>idx_name = ''ix'', idx_unique = False, idx_columns = [''name'']\<rparr>]"
  by code_simp

text \<open>
  Claim C5. The parser decides \<open>unique\<close> by looking for the letters \<open>UNIQUE\<close> anywhere in the
  upper-cased text, which is not the same as the keyword being present, so the claim does
  not hold of the code for every index text. The index of
  \<open>CREATE INDEX unique_ix ON t ([a])\<close> is not unique and its text does not have the keyword
  \<open>UNIQUE\<close>: the letters stand inside the name \<open>unique_ix\<close>. The parser returns the
  descriptor with \<open>unique\<close> true (and the one column \<open>a\<close>, its brackets removed), and the run
  then sends \<open>CREATE UNIQUE INDEX\<close> for it to the target. A text with the keyword, in
  either letter case, gives \<open>unique\<close> true, and a text without the letters gives false.
\<close>

theorem unique_from_index_name:
  "get_indexes (sqlite_master unique_ix_db) ''t''
     = [\<lparr>idx_name = ''unique_ix'', idx_unique = True, idx_columns = [''a'']\<rparr>]
   \<and> \<not> spec_has_word ''UNIQUE'' ''CREATE INDEX unique_ix ON t ([a])''
   \<and> statements (fst (main tgt_ok unique_ix_db 100))
       = [DropTable ''t'', CreateTable ''t'' [(''a'', ''INT'')],
          CreateIndex True ''unique_ix'' ''t'' [''a'']]
   \<and> sql_text (CreateIndex True ''unique_ix'' ''t'' [''a''] :: sqlval stmt)
       = ''CREATE UNIQUE INDEX '' @ quoted ''unique_ix'' @ '' ON '' @ quoted ''t''
         @ '' ('' @ quoted ''a'' @ '');''
   \<and> spec_has_word ''UNIQUE'' ''create unique index ix on t (a)''
   \<and> index_loop [(''ix'', ''create unique index ix on t (a)'')] []
       = [\<lparr>idx_name = ''ix'', idx_unique = True, idx_columns = [''a'']\<rparr>]
   \<and> \<not> spec_has_word ''UNIQUE'' ''CREATE INDEX ix ON t (a)''
   \<and> index_loop [(''ix'', ''CREATE INDEX ix ON t (a)'')] []
       = [\<lparr>idx_name = ''ix'', idx_unique = False, idx_columns = [''a'']\<rparr>]"
  by code_simp

section \<open>Properties of a run\<close>

subsection \<open>Sequencing and the readings of a trace\<close>

declare range_up.simps [simp del] range_down.simps [simp del]

lemma and_then_None [simp]: "and_then (h, None) k = k h"
  by (simp add: and_then_def)

lemma and_then_Some [simp]: "and_then (h, Some e) k = (h, Some e)"
  by (simp add: and_then_def)

lemma statements_append [simp]: "statements (xs @ ys) = statements xs @ statements ys"
  by (induction xs rule: statements.induct) auto

lemma raised_append [simp]: "raised (xs @ ys) = raised xs @ raised ys"
  by (induction xs rule: raised.induct) auto

lemma reports_append [simp]: "reports (xs @ ys) = reports xs @ reports ys"
  by (induction xs rule: reports.induct) auto

subsection \<open>The statements of each part\<close>

lemma statements_create_indexes:
  "statements (create_indexes tgt table indexes h) =
     statements h @
     map (\<lambda>idx. CreateIndex (idx_unique idx) (idx_name idx) table (idx_columns idx)) indexes"
  by (induction indexes arbitrary: h)
     (auto simp: Let_def attempt_def split: option.splits)

lemma statements_insert_batch:
  "statements (insert_batch tgt table cols rows batch_size i h) =
     statements h @ [Insert table cols (slice rows i (i + batch_size))]"
  by (auto simp: insert_batch_def Let_def attempt_def split: option.splits)

lemma statements_batch_loop:
  "statements (batch_loop tgt table cols rows batch_size is h) =
     statements h @ map (\<lambda>i. Insert table cols (slice rows i (i + batch_size))) is"
  by (induction "is" arbitrary: h) (auto simp: statements_insert_batch)

subsection \<open>Closing the connections\<close>

lemma close_create_indexes:
  "filter is_close (create_indexes tgt table indexes h) = filter is_close h"
  by (induction indexes arbitrary: h)
     (auto simp: Let_def attempt_def split: option.splits)

lemma close_insert_batch:
  "filter is_close (insert_batch tgt table cols rows batch_size i h) = filter is_close h"
  by (auto simp: insert_batch_def Let_def attempt_def split: option.splits)

lemma close_batch_loop:
  "filter is_close (batch_loop tgt table cols rows batch_size is h) = filter is_close h"
  by (induction "is" arbitrary: h) (auto simp: close_insert_batch)

lemma close_transfer:
  "filter is_close (fst (transfer tgt table cols rows batch_size h)) = filter is_close h"
  by (auto simp: transfer_def Let_def close_batch_loop split: sum.splits)

lemma close_migrate_table:
  "filter is_close (fst (migrate_table tgt src batch_size table h)) = filter is_close h"
  by (auto simp: migrate_table_def Let_def must_def and_then_def close_transfer
      close_create_indexes split: option.splits prod.splits)

lemma close_migrate_tables:
  "filter is_close (fst (migrate_tables tgt src batch_size tables h)) = filter is_close h"
proof (induction tables arbitrary: h)
  case Nil
  show ?case by simp
next
  case (Cons t ts)
  show ?case
  proof (cases "migrate_table tgt src batch_size t h")
    case (Pair h' r)
    then have c: "filter is_close h' = filter is_close h"
      using close_migrate_table [of tgt src batch_size t h] by simp
    show ?thesis
      using Pair c Cons.IH [of h'] by (cases r) simp_all
  qed
qed

text \<open>
  Claim C7, amended. A run that ends without a propagating exception, whatever happened to
  its index statements and batches, ends with the four \<^verbatim>\<open>close\<close> calls (target cursor,
  target connection, source cursor, source connection) followed by the completion line,
  and closes nothing before. A run that ends with a propagating exception closes nothing.
\<close>

theorem connections_closed_on_completion:
  fixes tgt :: "'v target"
  shows "(snd (main tgt src batch_size) = None \<longrightarrow>
      (\<exists>h. fst (main tgt src batch_size) =
             h @ [CloseCursorMysql, CloseMysql, CloseCursorSqlite, CloseSqlite,
                  Print MigrationComplete]
           \<and> filter is_close h = []))
   \<and> (snd (main tgt src batch_size) \<noteq> None \<longrightarrow>
        filter is_close (fst (main tgt src batch_size)) = [])"
proof (cases "tgt [OpenSqlite] Connect")
  case (Some e)
  then show ?thesis by (simp add: main_def must_def)
next
  case None
  define h2 :: "'v event list" where "h2 = [OpenSqlite, Did Connect None,
    Print (TablesFound (get_tables (sqlite_master src)))]"
  obtain h3 r where m: "migrate_tables tgt src batch_size (get_tables (sqlite_master src)) h2 = (h3, r)"
    by (cases "migrate_tables tgt src batch_size (get_tables (sqlite_master src)) h2")
  have c: "filter is_close h3 = []"
    using close_migrate_tables [of tgt src batch_size "get_tables (sqlite_master src)" h2] m
    by (simp add: h2_def)
  have e: "main tgt src batch_size =
     and_then (h3, r) (\<lambda>h3. (h3 @ [CloseCursorMysql, CloseMysql, CloseCursorSqlite, CloseSqlite,
                    Print MigrationComplete], None))"
    using None m by (simp add: main_def must_def Let_def h2_def)
  show ?thesis
    using c by (cases r) (simp_all add: e)
qed

text \<open>
  Claim C7, as the code has it. The \<^verbatim>\<open>close\<close> calls are plain statements after the loop.
  When the target rejects the creation of table \<open>users\<close>, the exception leaves \<^verbatim>\<open>main\<close>
  and no \<^verbatim>\<open>close\<close> call has been made on either connection.
\<close>

theorem unclosed_after_failed_create:
  "snd (main tgt_no_create users_db 2) = Some (DbError ''denied'')
   \<and> filter is_close (fst (main tgt_no_create users_db 2)) = []"
  by code_simp

theorem connections_closed_on_completion_witness:
  "snd (main tgt_rejects users_db 2) = None
   \<and> (\<exists>h. fst (main tgt_rejects users_db 2) =
             h @ [CloseCursorMysql, CloseMysql, CloseCursorSqlite, CloseSqlite,
                  Print MigrationComplete]
           \<and> filter is_close h = [])
   \<and> snd (main tgt_no_create users_db 2) \<noteq> None
   \<and> filter is_close (fst (main tgt_no_create users_db 2)) = []"
proof -
  have a: "snd (main tgt_rejects users_db 2) = None" by code_simp
  have b: "snd (main tgt_no_create users_db 2) \<noteq> None" by code_simp
  from connections_closed_on_completion [of tgt_rejects users_db 2]
       connections_closed_on_completion [of tgt_no_create users_db 2] a b
  show ?thesis by blast
qed

subsection \<open>Tables without creation text\<close>

text \<open>
  Claim C10. When the catalog has no row for a table, or the row's creation text is
  \<^verbatim>\<open>NULL\<close> or empty, the loop body does nothing for that table: no statement is sent, no
  line is printed, nothing is raised, and the run goes on with the remaining tables from
  the same state.
\<close>

theorem missing_schema_skipped:
  assumes "fetch_schema (sqlite_master src) table = None
         \<or> fetch_schema (sqlite_master src) table = Some None
         \<or> fetch_schema (sqlite_master src) table = Some (Some [])"
  shows "migrate_table tgt src batch_size table h = (h, None)
       \<and> migrate_tables tgt src batch_size (table # tables) h
           = migrate_tables tgt src batch_size tables h"
proof -
  have "migrate_table tgt src batch_size table h = (h, None)"
    using assms by (auto simp: migrate_table_def)
  then show ?thesis by simp
qed

theorem missing_schema_skipped_witness:
  "fetch_schema (sqlite_master users_db) ''ghost'' = Some None
   \<and> migrate_table tgt_rejects users_db 2 ''ghost'' [OpenSqlite] = ([OpenSqlite], None)
   \<and> migrate_tables tgt_rejects users_db 2 [''ghost'', ''users''] [OpenSqlite]
        = migrate_tables tgt_rejects users_db 2 [''users''] [OpenSqlite]"
proof -
  have h: "fetch_schema (sqlite_master users_db) ''ghost'' = Some None" by code_simp
  then have "fetch_schema (sqlite_master users_db) ''ghost'' = None
         \<or> fetch_schema (sqlite_master users_db) ''ghost'' = Some None
         \<or> fetch_schema (sqlite_master users_db) ''ghost'' = Some (Some [])" by simp
  from missing_schema_skipped [OF this] h show ?thesis by blast
qed

subsection \<open>Internal tables\<close>

lemma startswith_iff_append: "startswith s p \<longleftrightarrow> (\<exists>r. s = p @ r)"
  by (induction s p rule: startswith.induct) auto

lemma statements_transfer:
  "statements (fst (transfer tgt table cols rows batch_size h)) =
     statements h @
     (if rows = [] then []
      else case py_range 0 (int (length rows)) batch_size of
             Inl e \<Rightarrow> []
           | Inr is \<Rightarrow> map (\<lambda>i. Insert table cols (slice rows i (i + batch_size))) is)"
  by (auto simp: transfer_def Let_def statements_batch_loop split: sum.splits)

lemma table_of_transfer:
  "\<exists>ss. statements (fst (transfer tgt table cols rows batch_size h)) = statements h @ ss
        \<and> (\<forall>s \<in> set ss. stmt_table s = table)"
  unfolding statements_transfer by (auto split: sum.splits)

lemma table_of_migrate_table:
  "\<exists>ss. statements (fst (migrate_table tgt src batch_size table h)) = statements h @ ss
        \<and> (\<forall>s \<in> set ss. stmt_table s = table)"
proof (cases "fetch_schema (sqlite_master src) table")
  case None
  then show ?thesis by (simp add: migrate_table_def)
next
  case (Some o1)
  show ?thesis
  proof (cases o1)
    case None
    with Some show ?thesis by (simp add: migrate_table_def)
  next
    case (Some schema)
    note sch = \<open>fetch_schema (sqlite_master src) table = Some o1\<close> Some
    show ?thesis
    proof (cases "schema = []")
      case True
      with sch show ?thesis by (simp add: migrate_table_def)
    next
      case False
      define h1 where "h1 = h @ [Print (ColumnsFor table (map fst (parse_columns schema))),
                           Print (CreatingTable table)]"
      define h2 where "h2 = h1 @ [Did (Execute (DropTable table)) (tgt h1 (Execute (DropTable table)))]"
      define h3 where "h3 = h2 @ [Did (Execute (CreateTable table (parse_columns schema)))
           (tgt h2 (Execute (CreateTable table (parse_columns schema))))]"
      define h4 where "h4 = h3 @ [Did Commit (tgt h3 Commit)]"
      define h5 where "h5 = create_indexes tgt table (get_indexes (sqlite_master src) table) h4"
      obtain cols rows where sel: "select_all src table = (cols, rows)"
        by (cases "select_all src table")
      obtain ss where ss: "statements (fst (transfer tgt table cols rows batch_size h5)) = statements h5 @ ss"
        "\<forall>s \<in> set ss. stmt_table s = table"
        using table_of_transfer by blast
      have m: "migrate_table tgt src batch_size table h =
        (case tgt h1 (Execute (DropTable table)) of Some e \<Rightarrow> (h2, Some (DbError e))
         | None \<Rightarrow> (case tgt h2 (Execute (CreateTable table (parse_columns schema))) of
              Some e \<Rightarrow> (h3, Some (DbError e))
            | None \<Rightarrow> (case tgt h3 Commit of Some e \<Rightarrow> (h4, Some (DbError e))
                | None \<Rightarrow> transfer tgt table cols rows batch_size h5)))"
        using sch False sel
        by (simp add: migrate_table_def Let_def must_def h1_def h2_def h3_def h4_def h5_def
            split: option.splits)
      show ?thesis
        unfolding m using ss
        by (auto simp: h1_def h2_def h3_def h4_def h5_def statements_create_indexes
            split: option.splits)
    qed
  qed
qed

lemma table_of_migrate_tables:
  "\<exists>ss. statements (fst (migrate_tables tgt src batch_size tables h)) = statements h @ ss
        \<and> (\<forall>s \<in> set ss. stmt_table s \<in> set tables)"
proof (induction tables arbitrary: h)
  case Nil
  show ?case by simp
next
  case (Cons t ts)
  obtain h' r where m: "migrate_table tgt src batch_size t h = (h', r)"
    by (cases "migrate_table tgt src batch_size t h")
  obtain ss where ss: "statements h' = statements h @ ss" "\<forall>s \<in> set ss. stmt_table s = t"
    using table_of_migrate_table [of tgt src batch_size t h] m by auto
  show ?case
  proof (cases r)
    case (Some e)
    with m ss show ?thesis by auto
  next
    case None
    obtain ss' where ss': "statements (fst (migrate_tables tgt src batch_size ts h')) = statements h' @ ss'"
      "\<forall>s \<in> set ss'. stmt_table s \<in> set ts"
      using Cons.IH [of h'] by blast
    have "statements (fst (migrate_tables tgt src batch_size (t # ts) h)) = statements h @ (ss @ ss')"
      using m None ss ss' by simp
    moreover have "\<forall>s \<in> set (ss @ ss'). stmt_table s \<in> set (t # ts)"
      using ss ss' by auto
    ultimately show ?thesis by blast
  qed
qed

lemma table_of_main:
  "\<forall>s \<in> set (statements (fst (main tgt src batch_size))).
     stmt_table s \<in> set (get_tables (sqlite_master src))"
proof (cases "tgt [OpenSqlite] Connect")
  case (Some e)
  then show ?thesis by (simp add: main_def must_def)
next
  case None
  define h2 :: "'a event list" where "h2 = [OpenSqlite, Did Connect None,
    Print (TablesFound (get_tables (sqlite_master src)))]"
  obtain h3 r where m: "migrate_tables tgt src batch_size (get_tables (sqlite_master src)) h2 = (h3, r)"
    by (cases "migrate_tables tgt src batch_size (get_tables (sqlite_master src)) h2")
  have e: "main tgt src batch_size =
     and_then (h3, r) (\<lambda>h3. (h3 @ [CloseCursorMysql, CloseMysql, CloseCursorSqlite, CloseSqlite,
                    Print MigrationComplete], None))"
    using None m by (simp add: main_def must_def Let_def h2_def)
  obtain ss where ss: "statements h3 = statements h2 @ ss"
     "\<forall>s \<in> set ss. stmt_table s \<in> set (get_tables (sqlite_master src))"
    using table_of_migrate_tables [of tgt src batch_size "get_tables (sqlite_master src)" h2] m
    by auto
  have "statements h2 = []" by (simp add: h2_def)
  with ss show ?thesis by (cases r) (simp_all add: e)
qed

text \<open>
  Claim C9. No name returned by \<^verbatim>\<open>get_tables\<close> starts with \<open>sqlite_\<close>, and every statement
  a run sends to the target, under every behaviour of the target, is a statement for a table
  whose name does not start with \<open>sqlite_\<close>.
\<close>

theorem internal_tables_excluded:
  "(\<forall>name \<in> set (get_tables master). \<not> startswith name ''sqlite_'')
   \<and> (\<forall>s \<in> set (statements (fst (main tgt src batch_size))).
         \<not> startswith (stmt_table s) ''sqlite_'')"
proof -
  have a: "\<forall>name \<in> set (get_tables m). \<not> startswith name ''sqlite_''" for m
    by (simp add: get_tables_def)
  from a [of master] a [of "sqlite_master src"] table_of_main [of tgt src batch_size]
  show ?thesis by blast
qed

theorem internal_tables_excluded_witness:
  "get_tables users_master = [''ghost'', ''users'']
   \<and> ''sqlite_sequence'' \<notin> set (get_tables users_master)
   \<and> map stmt_table (statements (fst (main tgt_ok users_db 2)))
       = [''users'', ''users'', ''users'', ''users'', ''users'']"
proof -
  have g: "get_tables users_master = [''ghost'', ''users'']" by code_simp
  have s: "startswith ''sqlite_sequence'' ''sqlite_''" by code_simp
  have m: "map stmt_table (statements (fst (main tgt_ok users_db 2)))
       = [''users'', ''users'', ''users'', ''users'', ''users'']" by code_simp
  from internal_tables_excluded [of users_master tgt_ok users_db 2] s
  have "''sqlite_sequence'' \<notin> set (get_tables users_master)" by blast
  with g m show ?thesis by blast
qed


subsection \<open>Batches\<close>

lemma range_up_Nil: "\<not> (0 < step \<and> i < stop) \<Longrightarrow> range_up i stop step = []"
  by (subst range_up.simps) simp

lemma range_up_Cons:
  "0 < step \<Longrightarrow> i < stop \<Longrightarrow> range_up i stop step = i # range_up (i + step) stop step"
  by (subst range_up.simps) simp

lemma range_up_length:
  "0 < step \<Longrightarrow>
     int (length (range_up i stop step)) = (if i < stop then - ((i - stop) div step) else 0)"
proof (induction i stop step rule: range_up.induct)
  case (1 i stop step)
  show ?case
  proof (cases "i < stop")
    case False
    then show ?thesis by (simp add: range_up_Nil)
  next
    case True
    have "(i + step - stop) div step = ((i - stop) + step) div step"
      by (simp add: algebra_simps)
    also have "\<dots> = (i - stop) div step + 1"
      using 1(2) by (subst div_add_self2) simp_all
    finally have d: "(i + step - stop) div step = (i - stop) div step + 1" .
    have neg: "(i - stop) div step < 0"
      using True 1(2) by (simp add: div_neg_pos_less0)
    have ih: "int (length (range_up (i + step) stop step))
        = (if i + step < stop then - ((i + step - stop) div step) else 0)"
      using 1(1) True 1(2) by simp
    have len: "int (length (range_up i stop step)) = 1 + int (length (range_up (i + step) stop step))"
      using True 1(2) by (simp add: range_up_Cons)
    show ?thesis
    proof (cases "i + step < stop")
      case True
      with ih len d \<open>i < stop\<close> show ?thesis by simp
    next
      case False
      then have "0 \<le> (i + step - stop) div step"
        using 1(2) by (simp add: pos_imp_zdiv_nonneg_iff)
      with d neg have "(i - stop) div step = -1" by linarith
      with ih len \<open>i < stop\<close> False show ?thesis by simp
    qed
  qed
qed

lemma range_up_butlast:
  "j \<in> set (butlast (range_up i stop step)) \<Longrightarrow> i \<le> j \<and> j + step < stop"
proof (induction i stop step rule: range_up.induct)
  case (1 i stop step)
  show ?case
  proof (cases "0 < step \<and> i < stop")
    case False
    with 1(2) show ?thesis by (simp add: range_up_Nil)
  next
    case True
    note T = True
    then have c: "range_up i stop step = i # range_up (i + step) stop step"
      by (simp add: range_up_Cons)
    show ?thesis
    proof (cases "i + step < stop")
      case False
      then have "range_up (i + step) stop step = []"
        by (simp add: range_up_Nil)
      with c 1(2) show ?thesis by simp
    next
      case True
      then have "range_up (i + step) stop step \<noteq> []"
        using T by (simp add: range_up_Cons)
      with c 1(2) have "j = i \<or> j \<in> set (butlast (range_up (i + step) stop step))"
        by simp
      then show ?thesis
      proof
        assume "j = i"
        with True show ?thesis by simp
      next
        assume "j \<in> set (butlast (range_up (i + step) stop step))"
        from 1(1) [OF T this] T show ?thesis by simp
      qed
    qed
  qed
qed

lemma range_up_last:
  "0 < step \<Longrightarrow> i < stop \<Longrightarrow>
     last (range_up i stop step) < stop
     \<and> stop \<le> last (range_up i stop step) + step
     \<and> (last (range_up i stop step) - i) mod step = 0"
proof (induction i stop step rule: range_up.induct)
  case (1 i stop step)
  have c: "range_up i stop step = i # range_up (i + step) stop step"
    using 1(2,3) by (simp add: range_up_Cons)
  show ?case
  proof (cases "i + step < stop")
    case True
    then have ne: "range_up (i + step) stop step \<noteq> []"
      using 1(2) by (simp add: range_up_Cons)
    have l: "last (range_up i stop step) = last (range_up (i + step) stop step)"
      using c ne by simp
    from 1(1) 1(2,3) True
    have ih: "last (range_up (i + step) stop step) < stop
     \<and> stop \<le> last (range_up (i + step) stop step) + step
     \<and> (last (range_up (i + step) stop step) - (i + step)) mod step = 0" by simp
    have "last (range_up (i + step) stop step) - i
        = last (range_up (i + step) stop step) - (i + step) + step"
      by simp
    then have "(last (range_up (i + step) stop step) - i) mod step
        = (last (range_up (i + step) stop step) - (i + step) + step) mod step"
      by (rule arg_cong)
    also have "\<dots> = (last (range_up (i + step) stop step) - (i + step)) mod step"
      by (rule mod_add_self2)
    finally show ?thesis using ih l by simp
  next
    case False
    then have "range_up (i + step) stop step = []"
      by (simp add: range_up_Nil)
    with c have "range_up i stop step = [i]" by simp
    with False 1(2,3) show ?thesis by simp
  qed
qed

lemma concat_slices:
  "0 \<le> i \<Longrightarrow> 0 < step \<Longrightarrow>
     concat (map (\<lambda>j. slice rows j (j + step)) (range_up i (int (length rows)) step))
       = drop (nat i) rows"
proof (induction i "int (length rows)" step rule: range_up.induct)
  case (1 i step)
  show ?case
  proof (cases "i < int (length rows)")
    case False
    then show ?thesis by (simp add: range_up_Nil)
  next
    case True
    have ih: "concat (map (\<lambda>j. slice rows j (j + step)) (range_up (i + step) (int (length rows)) step))
       = drop (nat (i + step)) rows"
      using 1(1) True 1(2,3) by simp
    have le: "nat i \<le> nat (i + step)" using 1(2,3) by simp
    have "slice rows i (i + step) @ drop (nat (i + step)) rows = drop (nat i) rows"
    proof -
      have "drop (nat (i + step)) rows = drop (nat (i + step) - nat i) (drop (nat i) rows)"
        using le by simp
      moreover have "slice rows i (i + step) = take (nat (i + step) - nat i) (drop (nat i) rows)"
        by (simp add: slice_def drop_take)
      ultimately show ?thesis by (simp only: append_take_drop_id)
    qed
    then show ?thesis
      using True 1(3) ih by (simp add: range_up_Cons)
  qed
qed

lemma length_slice_full:
  assumes "0 \<le> i" and "i + n \<le> int (length rows)" and "0 \<le> n"
  shows "int (length (slice rows i (i + n))) = n"
  using assms by (simp add: slice_def)

lemma length_slice_tail:
  assumes "0 \<le> i" and "int (length rows) \<le> i + n" and "i \<le> int (length rows)"
  shows "int (length (slice rows i (i + n))) = int (length rows) - i"
  using assms by (simp add: slice_def)

lemma range_up_bounds:
  "j \<in> set (range_up i stop step) \<Longrightarrow> i \<le> j \<and> j < stop"
proof (induction i stop step rule: range_up.induct)
  case (1 i stop step)
  show ?case
  proof (cases "0 < step \<and> i < stop")
    case False
    with 1(2) show ?thesis by (simp add: range_up_Nil)
  next
    case True
    then have "range_up i stop step = i # range_up (i + step) stop step"
      by (simp add: range_up_Cons)
    with 1(2) have "j = i \<or> j \<in> set (range_up (i + step) stop step)" by simp
    then show ?thesis
    proof
      assume "j = i"
      with True show ?thesis by simp
    next
      assume "j \<in> set (range_up (i + step) stop step)"
      from 1(1) [OF True this] True show ?thesis by simp
    qed
  qed
qed

lemma last_batch_size:
  fixes n l b :: int
  assumes "0 < b" and "l < n" and "n \<le> l + b" and "l mod b = 0"
  shows "n - l = (if n mod b = 0 then b else n mod b)"
proof -
  have "n mod b = (n - l) mod b"
    using assms(4) by (metis mod_diff_right_eq diff_zero mod_mod_trivial)
  moreover have "0 < n - l" "n - l \<le> b" using assms by simp_all
  ultimately show ?thesis
    by (cases "n - l = b") simp_all
qed

text \<open>
  Claim C1. For a batch size of at least one, the transfer of the rows of a table raises
  nothing and sends exactly one insert statement per batch and no other statement, where
  the batches, in order, concatenate to the rows; their number is the ceiling of the number
  of rows divided by the batch size; every batch but the last has exactly batch-size rows;
  the last has \<open>N mod B\<close> rows, or \<open>B\<close> when \<open>B\<close> divides \<open>N\<close>; and for no rows there is no
  batch, hence no insert statement.
\<close>

theorem transfer_batches:
  fixes tgt :: "'v target"
  assumes "1 \<le> batch_size"
  shows "snd (transfer tgt table cols rows batch_size h) = None
       \<and> (\<exists>batches.
            statements (fst (transfer tgt table cols rows batch_size h))
              = statements h @ map (Insert table cols) batches
          \<and> concat batches = rows
          \<and> int (length batches) = \<lceil>real (length rows) / real_of_int batch_size\<rceil>
          \<and> (\<forall>b \<in> set (butlast batches). int (length b) = batch_size)
          \<and> (rows \<noteq> [] \<longrightarrow>
                int (length (last batches))
                  = (if int (length rows) mod batch_size = 0 then batch_size
                     else int (length rows) mod batch_size))
          \<and> (rows = [] \<longrightarrow> batches = []))"
proof -
  define n where "n = int (length rows)"
  define idxs where "idxs = range_up 0 n batch_size"
  define batches where "batches = map (\<lambda>i. slice rows i (i + batch_size)) idxs"
  have pos: "0 < batch_size" using assms by simp
  have r: "py_range 0 n batch_size = Inr idxs"
    using pos by (simp add: py_range_def idxs_def)
  have fin: "snd (transfer tgt table cols rows batch_size h) = None"
    using r by (simp add: transfer_def Let_def n_def)
  have empty: "rows = [] \<longrightarrow> batches = []"
    by (simp add: batches_def idxs_def n_def range_up_Nil)
  have st: "statements (fst (transfer tgt table cols rows batch_size h))
              = statements h @ map (Insert table cols) batches"
  proof (cases "rows = []")
    case True
    with empty show ?thesis by (simp add: statements_transfer)
  next
    case False
    with r show ?thesis
      by (simp add: statements_transfer batches_def n_def comp_def)
  qed
  have cc: "concat batches = rows"
    using concat_slices [of 0 batch_size rows] pos by (simp add: batches_def idxs_def n_def)
  have len: "int (length batches) = \<lceil>real (length rows) / real_of_int batch_size\<rceil>"
  proof -
    have "int (length batches) = (if 0 < n then - ((0 - n) div batch_size) else 0)"
      using range_up_length [OF pos, of 0 n] by (simp add: batches_def idxs_def)
    also have "\<dots> = - ((- n) div batch_size)"
      by (cases "0 < n") (simp_all add: n_def)
    also have "\<dots> = \<lceil>real_of_int n / real_of_int batch_size\<rceil>"
      by (simp add: ceiling_divide_eq_div)
    finally show ?thesis by (simp add: n_def)
  qed
  have full: "\<forall>b \<in> set (butlast batches). int (length b) = batch_size"
  proof
    fix b assume "b \<in> set (butlast batches)"
    then obtain i where i: "i \<in> set (butlast idxs)" "b = slice rows i (i + batch_size)"
      by (auto simp: batches_def map_butlast [symmetric])
    from range_up_butlast [of i 0 n batch_size] i(1)
    have "0 \<le> i" "i + batch_size < n" by (simp_all add: idxs_def)
    then show "int (length b) = batch_size"
      using length_slice_full [of i batch_size rows] pos i(2) by (simp add: n_def)
  qed
  have lst: "rows \<noteq> [] \<longrightarrow>
                int (length (last batches))
                  = (if int (length rows) mod batch_size = 0 then batch_size
                     else int (length rows) mod batch_size)"
  proof
    assume "rows \<noteq> []"
    then have n: "0 < n" by (simp add: n_def)
    then have ne: "idxs \<noteq> []" using pos by (simp add: idxs_def range_up_Cons)
    define l where "l = last idxs"
    from range_up_last [OF pos n]
    have l: "l < n" "n \<le> l + batch_size" "l mod batch_size = 0"
      by (simp_all add: l_def idxs_def)
    have "l \<in> set idxs" using ne by (simp add: l_def)
    then have l0: "0 \<le> l"
      using range_up_bounds [of l 0 n batch_size] by (simp add: idxs_def)
    have "last batches = slice rows l (l + batch_size)"
      using ne by (simp add: batches_def last_map l_def)
    then have "int (length (last batches)) = n - l"
      using length_slice_tail [of l rows batch_size] l l0 by (simp add: n_def)
    also have "\<dots> = (if n mod batch_size = 0 then batch_size else n mod batch_size)"
      using last_batch_size [OF pos l] .
    finally show "int (length (last batches))
                  = (if int (length rows) mod batch_size = 0 then batch_size
                     else int (length rows) mod batch_size)"
      by (simp add: n_def)
  qed
  from fin st cc len full lst empty show ?thesis by blast
qed

theorem transfer_batches_witness:
  "(1::int) \<le> 2
   \<and> snd (transfer tgt_ok ''users'' [''id'', ''name''] users_rows 2 []) = None
   \<and> statements (fst (transfer tgt_ok ''users'' [''id'', ''name''] users_rows 2 []))
       = map (Insert ''users'' [''id'', ''name''])
           [ [ [IntV 1, TextV ''a''], [IntV 2, TextV ''b''] ], [ [IntV 3, TextV ''c''] ] ]
   \<and> \<lceil>real (length users_rows) / real_of_int 2\<rceil> = 2"
proof -
  have h: "(1::int) \<le> 2" by simp
  have s: "statements (fst (transfer tgt_ok ''users'' [''id'', ''name''] users_rows 2 []))
       = map (Insert ''users'' [''id'', ''name''])
           [ [ [IntV 1, TextV ''a''], [IntV 2, TextV ''b''] ], [ [IntV 3, TextV ''c''] ] ]"
    by code_simp
  have c: "\<lceil>real (length users_rows) / real_of_int 2\<rceil> = 2"
    by (simp add: users_rows_def)
  from transfer_batches [OF h, of tgt_ok "''users''" "[''id'', ''name'']" users_rows "[]"] h s c
  show ?thesis by blast
qed

subsection \<open>Failures inside the try blocks\<close>

lemma raised_create_indexes:
  "raised h = reports h \<Longrightarrow>
     raised (create_indexes tgt table indexes h) = reports (create_indexes tgt table indexes h)"
  by (induction indexes arbitrary: h)
     (auto simp: Let_def attempt_def split: option.splits)

lemma raised_insert_batch:
  "raised h = reports h \<Longrightarrow>
     raised (insert_batch tgt table cols rows batch_size i h)
       = reports (insert_batch tgt table cols rows batch_size i h)"
  by (auto simp: insert_batch_def Let_def attempt_def split: option.splits)

lemma raised_batch_loop:
  "raised h = reports h \<Longrightarrow>
     raised (batch_loop tgt table cols rows batch_size idxs h)
       = reports (batch_loop tgt table cols rows batch_size idxs h)"
  by (induction idxs arbitrary: h) (auto simp: raised_insert_batch)

lemma raised_transfer:
  "raised h = reports h \<Longrightarrow>
     raised (fst (transfer tgt table cols rows batch_size h))
       = reports (fst (transfer tgt table cols rows batch_size h))"
  by (auto simp: transfer_def Let_def raised_batch_loop split: sum.splits)

lemma in_try_after_create [simp]:
  "\<not> in_try (h @ [Did (Execute (CreateTable table columns)) r]) Commit"
  by simp

lemma migrate_table_isolated:
  fixes tgt :: "'v target"
  assumes H: "\<forall>h a e. tgt h a = Some e \<longrightarrow> in_try h a"
    and B: "1 \<le> batch_size"
  shows "snd (migrate_table tgt src batch_size table h) = None
       \<and> statements (fst (migrate_table tgt src batch_size table h))
           = statements h @ table_plan src batch_size table
       \<and> (raised h = reports h \<longrightarrow>
            raised (fst (migrate_table tgt src batch_size table h))
              = reports (fst (migrate_table tgt src batch_size table h)))"
proof -
  have ok: "\<not> in_try h a \<Longrightarrow> tgt h a = None" for h a
    using H by (cases "tgt h a") auto
  have pos: "0 < batch_size" using B by simp
  show ?thesis
  proof (cases "\<exists>schema. fetch_schema (sqlite_master src) table = Some (Some schema) \<and> schema \<noteq> []")
    case False
    then have "migrate_table tgt src batch_size table h = (h, None)"
      by (auto simp: migrate_table_def split: option.splits)
    moreover have "table_plan src batch_size table = []"
      using False by (auto simp: table_plan_def split: option.splits)
    ultimately show ?thesis by simp
  next
    case True
    then obtain schema where sch: "fetch_schema (sqlite_master src) table = Some (Some schema)"
      "schema \<noteq> []" by blast
    define h1 where "h1 = h @ [Print (ColumnsFor table (map fst (parse_columns schema))),
                           Print (CreatingTable table)]"
    define h2 where "h2 = h1 @ [Did (Execute (DropTable table)) None]"
    define h3 where "h3 = h2 @ [Did (Execute (CreateTable table (parse_columns schema))) None]"
    define h4 where "h4 = h3 @ [Did Commit None]"
    define h5 where "h5 = create_indexes tgt table (get_indexes (sqlite_master src) table) h4"
    obtain cols rows where sel: "select_all src table = (cols, rows)"
      by (cases "select_all src table")
    have t1: "tgt h1 (Execute (DropTable table)) = None" by (rule ok) simp
    have t2: "tgt h2 (Execute (CreateTable table (parse_columns schema))) = None"
      by (rule ok) simp
    have t3: "tgt h3 Commit = None" by (rule ok) (simp add: h3_def)
    have s1: "must tgt (Execute (DropTable table)) h1 = (h2, None)"
      using t1 by (simp add: must_def h2_def)
    have s2: "must tgt (Execute (CreateTable table (parse_columns schema))) h2 = (h3, None)"
      using t2 by (simp add: must_def h3_def)
    have s3: "must tgt Commit h3 = (h4, None)"
      using t3 by (simp add: must_def h4_def)
    have "migrate_table tgt src batch_size table h =
        and_then (must tgt (Execute (DropTable table)) h1) (\<lambda>h2.
        and_then (must tgt (Execute (CreateTable table (parse_columns schema))) h2) (\<lambda>h3.
        and_then (must tgt Commit h3) (\<lambda>h4.
          transfer tgt table cols rows batch_size
            (create_indexes tgt table (get_indexes (sqlite_master src) table) h4))))"
      using sch sel by (simp add: migrate_table_def Let_def h1_def)
    then have m: "migrate_table tgt src batch_size table h
        = transfer tgt table cols rows batch_size h5"
      by (simp add: s1 s2 s3 h5_def)
    have p: "table_plan src batch_size table =
        [DropTable table, CreateTable table (parse_columns schema)] @
            map (\<lambda>idx. CreateIndex (idx_unique idx) (idx_name idx) table (idx_columns idx))
              (get_indexes (sqlite_master src) table) @
            map (\<lambda>i. Insert table cols (slice rows i (i + batch_size)))
                   (range_up 0 (int (length rows)) batch_size)"
      using sch sel by (simp add: table_plan_def)
    have s5: "statements h5 = statements h @ [DropTable table, CreateTable table (parse_columns schema)] @
            map (\<lambda>idx. CreateIndex (idx_unique idx) (idx_name idx) table (idx_columns idx))
              (get_indexes (sqlite_master src) table)"
      by (simp add: h5_def statements_create_indexes h4_def h3_def h2_def h1_def)
    have r5: "raised h = reports h \<Longrightarrow> raised h5 = reports h5"
      unfolding h5_def by (rule raised_create_indexes) (simp add: h4_def h3_def h2_def h1_def)
    have st: "statements (fst (transfer tgt table cols rows batch_size h5))
        = statements h5 @ map (\<lambda>i. Insert table cols (slice rows i (i + batch_size)))
                   (range_up 0 (int (length rows)) batch_size)"
      using pos by (simp add: statements_transfer py_range_def range_up_Nil)
    have fin: "snd (transfer tgt table cols rows batch_size h5) = None"
      using pos by (simp add: transfer_def py_range_def Let_def)
    show ?thesis
      unfolding m using fin st s5 p r5 raised_transfer [of h5 tgt table cols rows batch_size]
      by simp
  qed
qed

lemma migrate_tables_isolated:
  fixes tgt :: "'v target"
  assumes H: "\<forall>h a e. tgt h a = Some e \<longrightarrow> in_try h a"
    and B: "1 \<le> batch_size"
  shows "snd (migrate_tables tgt src batch_size tables h) = None
       \<and> statements (fst (migrate_tables tgt src batch_size tables h))
           = statements h @ concat (map (table_plan src batch_size) tables)
       \<and> (raised h = reports h \<longrightarrow>
            raised (fst (migrate_tables tgt src batch_size tables h))
              = reports (fst (migrate_tables tgt src batch_size tables h)))"
proof (induction tables arbitrary: h)
  case Nil
  show ?case by simp
next
  case (Cons t ts)
  obtain h' r where m: "migrate_table tgt src batch_size t h = (h', r)"
    by (cases "migrate_table tgt src batch_size t h")
  from migrate_table_isolated [OF H B, of src t h] m
  have r: "r = None" and s: "statements h' = statements h @ table_plan src batch_size t"
    and e: "raised h = reports h \<longrightarrow> raised h' = reports h'"
    by simp_all
  have step: "migrate_tables tgt src batch_size (t # ts) h = migrate_tables tgt src batch_size ts h'"
    using m r by simp
  show ?case
    unfolding step using Cons.IH [of h'] s e by simp
qed

text \<open>
  Claim C3. Let the target raise only inside the two \<^verbatim>\<open>try\<close> blocks, that is, on index
  statements, on inserts and on the commit of an insert, as often as it likes, and let the
  batch size be at least one. Then the run ends without a propagating exception; the
  statements it sends are, table by table in discovery order, the drop, the create, every
  index statement and every batch insert, each once, exactly as in a run where nothing
  raises; and the messages of the printed warnings and errors are the messages of the
  exceptions raised, one for one and in order.
\<close>

theorem failures_isolated:
  fixes tgt :: "'v target"
  assumes "\<forall>h a e. tgt h a = Some e \<longrightarrow> in_try h a"
    and "1 \<le> batch_size"
  shows "snd (main tgt src batch_size) = None
       \<and> statements (fst (main tgt src batch_size))
           = concat (map (table_plan src batch_size) (get_tables (sqlite_master src)))
       \<and> statements (fst (main tgt src batch_size))
           = statements (fst (main tgt_ok src batch_size))
       \<and> reports (fst (main tgt src batch_size)) = raised (fst (main tgt src batch_size))"
proof -
  have gen: "snd (main t src batch_size) = None
       \<and> statements (fst (main t src batch_size))
           = concat (map (table_plan src batch_size) (get_tables (sqlite_master src)))
       \<and> reports (fst (main t src batch_size)) = raised (fst (main t src batch_size))"
    if H: "\<forall>h a e. t h a = Some e \<longrightarrow> in_try h a" for t :: "'v target"
  proof -
    have c: "t [OpenSqlite] Connect = None"
      using H [rule_format, of "[OpenSqlite]" Connect] by (cases "t [OpenSqlite] Connect") auto
    define h2 :: "'v event list" where "h2 = [OpenSqlite, Did Connect None,
      Print (TablesFound (get_tables (sqlite_master src)))]"
    obtain h3 r where m: "migrate_tables t src batch_size (get_tables (sqlite_master src)) h2 = (h3, r)"
      by (cases "migrate_tables t src batch_size (get_tables (sqlite_master src)) h2")
    from migrate_tables_isolated [OF H assms(2), of src "get_tables (sqlite_master src)" h2] m
    have r: "r = None"
      and s: "statements h3 = concat (map (table_plan src batch_size) (get_tables (sqlite_master src)))"
      and e: "raised h3 = reports h3"
      by (simp_all add: h2_def)
    have "main t src batch_size = (h3 @ [CloseCursorMysql, CloseMysql, CloseCursorSqlite, CloseSqlite,
                    Print MigrationComplete], None)"
      using c m r by (simp add: main_def must_def Let_def h2_def)
    then show ?thesis using s e by simp
  qed
  have "\<forall>h a e. (tgt_ok :: 'v target) h a = Some e \<longrightarrow> in_try h a"
    by (simp add: tgt_ok_def)
  from gen [OF this] gen [OF assms(1)] show ?thesis by simp
qed

theorem failures_isolated_witness:
  "snd (main tgt_rejects users_db 2) = None
   \<and> statements (fst (main tgt_rejects users_db 2)) = statements (fst (main tgt_ok users_db 2))
   \<and> raised (fst (main tgt_rejects users_db 2)) = [''rejected'', ''rejected'', ''rejected'']
   \<and> reports (fst (main tgt_rejects users_db 2)) = [''rejected'', ''rejected'', ''rejected'']"
proof -
  have h1: "\<forall>h a e. (tgt_rejects :: sqlval target) h a = Some e \<longrightarrow> in_try h a"
  proof (intro allI impI)
    fix h :: "sqlval event list" and a :: "sqlval action" and e
    assume "tgt_rejects h a = Some e"
    then show "in_try h a"
      by (cases "(h, a)" rule: tgt_rejects.cases) simp_all
  qed
  have h2: "(1::int) \<le> 2" by simp
  have r: "raised (fst (main tgt_rejects users_db 2)) = [''rejected'', ''rejected'', ''rejected'']"
    by code_simp
  from failures_isolated [OF h1 h2, of users_db]
  have a: "snd (main tgt_rejects users_db 2) = None"
    and b: "statements (fst (main tgt_rejects users_db 2))
              = statements (fst (main tgt_ok users_db 2))"
    and c: "reports (fst (main tgt_rejects users_db 2)) = raised (fst (main tgt_rejects users_db 2))"
    by blast+
  from a b c r show ?thesis by simp
qed

end
